theory Spec2Isabelle
  imports Complex_Main
begin

section \<open>Data model\<close>

text \<open>
  The program is \<^verbatim>\<open>jacobi_noft.c\<close>: one relaxation pass \<^verbatim>\<open>SOR1\<close> over a grid
  buffer and the driver \<^verbatim>\<open>jacobi_cpu\<close> that exchanges halos with the neighbouring
  processes, calls \<^verbatim>\<open>SOR1\<close> and swaps the two buffers.

  A grid buffer is an array of \<^verbatim>\<open>TYPE\<close> with \<open>(NB + 2) * (MB + 2)\<close> cells, row-major.
  During one call of \<^verbatim>\<open>jacobi_cpu\<close> exactly two such arrays exist: the one the caller
  passed (\<^verbatim>\<open>matrix\<close>) and the one obtained from \<^verbatim>\<open>calloc\<close>. The pointers
  \<^verbatim>\<open>om\<close>, \<^verbatim>\<open>nm\<close> and \<^verbatim>\<open>tmpm\<close> range over these two arrays, so a pointer is
  modelled by the name of the array it points to and the memory by a store from array
  names to contents.

  \<^verbatim>\<open>TYPE\<close> comes from \<^verbatim>\<open>jacobi.h\<close>, which is not part of the sources at hand.
  Modelled from the spec: \<^verbatim>\<open>TYPE\<close> is the numeric type of a grid cell; it is taken to
  be \<^typ>\<open>real\<close>, so all arithmetic is exact and \<^verbatim>\<open>M_PI\<close> is \<^term>\<open>pi\<close>. Rounding
  is outside this model. The dimensions \<^verbatim>\<open>nb\<close>, \<^verbatim>\<open>mb\<close> are C \<^verbatim>\<open>int\<close>s; the model
  covers the non-negative ones, for which no index computation of the source is negative.
\<close>

datatype buffer = Matrix | Calloc

type_synonym store = "buffer \<Rightarrow> real list"

section \<open>The relaxation pass \<^verbatim>\<open>SOR1\<close>\<close>

text \<open>\<^verbatim>\<open>TYPE _W = 2.0 / (1.0 + M_PI / (TYPE)nb);\<close>\<close>

definition SOR1_W :: "nat \<Rightarrow> real" where
  "SOR1_W nb = 2 / (1 + pi / real nb)"

text \<open>\<^verbatim>\<open>pos = 1 + i + (j + 1) * (nb + 2);\<close>\<close>

definition pos_of :: "nat \<Rightarrow> nat \<Rightarrow> nat \<Rightarrow> nat" where
  "pos_of nb i j = 1 + i + (j + 1) * (nb + 2)"

text \<open>
  The right-hand side of the assignment to \<^verbatim>\<open>nm[pos]\<close>, as a function of the relaxation
  factor, the old value of the cell and the four values read around it.
\<close>

definition SOR1_update :: "real \<Rightarrow> real \<Rightarrow> real \<Rightarrow> real \<Rightarrow> real \<Rightarrow> real \<Rightarrow> real" where
  "SOR1_update w c west east north south = (1 - w) * c + w / 4 * (west + east + north + south)"

text \<open>
  The body of the inner loop: the assignment to \<^verbatim>\<open>nm[pos]\<close>, then the accumulation into
  \<^verbatim>\<open>norm\<close>, which reads \<^verbatim>\<open>nm[pos]\<close> and \<^verbatim>\<open>om[pos]\<close> back from memory.
\<close>

definition SOR1_cell ::
  "buffer \<Rightarrow> buffer \<Rightarrow> nat \<Rightarrow> nat \<Rightarrow> nat \<Rightarrow> store \<times> real \<Rightarrow> store \<times> real" where
  "SOR1_cell nm om nb j i = (\<lambda>(h, norm_acc).
     let pos = pos_of nb i j;
         h' = h(nm := (h nm)[pos := SOR1_update (SOR1_W nb) (h om ! pos)
                 (h nm ! (pos - 1)) (h om ! (pos + 1))
                 (h nm ! (pos - (nb + 2))) (h om ! (pos + (nb + 2)))])
     in (h', norm_acc + (h' nm ! pos - h' om ! pos) * (h' nm ! pos - h' om ! pos)))"

text \<open>
  \<^verbatim>\<open>for (j = 0; j < mb; j++) for (i = 0; i < nb; i++) ...\<close>, started with
  \<^verbatim>\<open>norm = 0.0\<close>. The result is the memory after the pass and the returned norm.
\<close>

definition SOR1 :: "store \<Rightarrow> buffer \<Rightarrow> buffer \<Rightarrow> nat \<Rightarrow> nat \<Rightarrow> store \<times> real" where
  "SOR1 h nm om nb mb =
     fold (\<lambda>j. fold (\<lambda>i. SOR1_cell nm om nb j i) [0..<nb]) [0..<mb] (h, 0)"

subsection \<open>The pass on two separate arrays\<close>

text \<open>
  When the two pointers differ, the pass reads the source array \<open>A\<close> only and rewrites the
  destination array \<open>B\<close>. These functions are that view of the same loops; they are
  related to \<^const>\<open>SOR1\<close> below and serve the proofs.
\<close>

definition cell_step ::
  "real list \<Rightarrow> nat \<Rightarrow> nat \<Rightarrow> nat \<Rightarrow> real list \<times> real \<Rightarrow> real list \<times> real" where
  "cell_step A nb j i = (\<lambda>(B, a).
     let pos = pos_of nb i j;
         B' = B[pos := SOR1_update (SOR1_W nb) (A ! pos) (B ! (pos - 1)) (A ! (pos + 1))
                 (B ! (pos - (nb + 2))) (A ! (pos + (nb + 2)))]
     in (B', a + (B' ! pos - A ! pos) * (B' ! pos - A ! pos)))"

definition row_pass ::
  "real list \<Rightarrow> nat \<Rightarrow> nat \<Rightarrow> nat \<Rightarrow> real list \<times> real \<Rightarrow> real list \<times> real" where
  "row_pass A nb j n = fold (\<lambda>i. cell_step A nb j i) [0..<n]"

definition grid_pass ::
  "real list \<Rightarrow> nat \<Rightarrow> nat \<Rightarrow> real list \<times> real \<Rightarrow> real list \<times> real" where
  "grid_pass A nb m = fold (\<lambda>j. row_pass A nb j nb) [0..<m]"

section \<open>The driver \<^verbatim>\<open>jacobi_cpu\<close>\<close>

subsection \<open>What the process sees of MPI\<close>

text \<open>
  The model is the view of one process. \<^verbatim>\<open>MPI_Comm_rank\<close> and \<^verbatim>\<open>MPI_Comm_size\<close>
  on \<^verbatim>\<open>comm\<close> give \<open>comm_rank\<close> and \<open>comm_size\<close>. The four scratch arrays come from
  \<^verbatim>\<open>malloc\<close>, whose initial contents C leaves indeterminate: the world supplies them.
  \<open>incoming k d\<close> is the message that the neighbour in direction \<open>d\<close> sends in iteration
  \<open>k\<close>, and \<open>peer_norms k\<close> are the values the other processes contribute to the
  \<^verbatim>\<open>MPI_Allreduce\<close> of iteration \<open>k\<close>. Blocking and failure of a transfer are not
  modelled: every posted transfer completes at \<^verbatim>\<open>MPI_Waitall\<close>.
\<close>

datatype direction = North | South | East | West

record world =
  comm_rank :: nat
  comm_size :: nat
  malloc_send_east :: "nat \<Rightarrow> real"
  malloc_send_west :: "nat \<Rightarrow> real"
  malloc_recv_east :: "nat \<Rightarrow> real"
  malloc_recv_west :: "nat \<Rightarrow> real"
  incoming :: "nat \<Rightarrow> direction \<Rightarrow> real list"
  peer_norms :: "nat \<Rightarrow> real list"

text \<open>
  What the process does to the outside, in program order. \<open>Printf\<close> carries the three
  arguments of the diagnostic \<^verbatim>\<open>printf\<close>; its second one is \<open>None\<close> when
  \<^verbatim>\<open>diff_norm\<close> has not been assigned yet.
\<close>

datatype event =
    Comm_split nat
  | Printf int "real option" real
  | Create_png nat int
  | Irecv direction
  | Isend direction "real list"
  | Waitall
  | Allreduce real
  | Print_timings
  | Free_grid buffer
  | Free_scratch
  | Comm_free

text \<open>
  \<^verbatim>\<open>rank % P\<close> and \<^verbatim>\<open>rank / P\<close> are undefined in C when \<^verbatim>\<open>P\<close> is zero; the model
  stops there with an error. The source has no other failing branch: it checks neither its
  arguments nor the results of the allocations and MPI calls.
\<close>

datatype error = Division_by_zero

text \<open>
  \<^verbatim>\<open>MPI_Comm_split(comm, color, key = rank, &c)\<close>: the new communicator holds the
  processes of \<^verbatim>\<open>comm\<close> with the same colour, ordered by their rank in \<^verbatim>\<open>comm\<close>.
\<close>

definition split_size :: "nat \<Rightarrow> (nat \<Rightarrow> nat) \<Rightarrow> nat \<Rightarrow> nat" where
  "split_size sz colour r = length (filter (\<lambda>q. colour q = colour r) [0..<sz])"

definition split_rank :: "(nat \<Rightarrow> nat) \<Rightarrow> nat \<Rightarrow> nat" where
  "split_rank colour r = length (filter (\<lambda>q. colour q = colour r) [0..<r])"

record topology =
  rank :: nat
  ns_rank :: nat
  ns_size :: nat
  ew_rank :: nat
  ew_size :: nat

text \<open>
  The macros \<^verbatim>\<open>RECV_NORTH\<close>, \<^verbatim>\<open>RECV_SOUTH\<close>, \<^verbatim>\<open>SEND_NORTH\<close> and \<^verbatim>\<open>SEND_SOUTH\<close>
  are defined in \<^verbatim>\<open>jacobi.h\<close>, which is not part of the sources at hand.
  Modelled from the spec: north and south data is a contiguous row of \<open>NB\<close> values; what
  is sent is the first and the last interior row of the buffer, and it is received into the
  ghost row above the first and below the last interior row. Each macro is the offset of
  the first cell of its row.
\<close>

definition RECV_NORTH :: "nat \<Rightarrow> nat \<Rightarrow> nat" where
  "RECV_NORTH NB MB = 1"

definition RECV_SOUTH :: "nat \<Rightarrow> nat \<Rightarrow> nat" where
  "RECV_SOUTH NB MB = (MB + 1) * (NB + 2) + 1"

definition SEND_NORTH :: "nat \<Rightarrow> nat \<Rightarrow> nat" where
  "SEND_NORTH NB MB = (NB + 2) + 1"

definition SEND_SOUTH :: "nat \<Rightarrow> nat \<Rightarrow> nat" where
  "SEND_SOUTH NB MB = MB * (NB + 2) + 1"

text \<open>The \<open>cnt\<close> cells of an array from offset \<open>off\<close>, as a send reads them.\<close>

definition slice :: "real list \<Rightarrow> nat \<Rightarrow> nat \<Rightarrow> real list" where
  "slice b off cnt = take cnt (drop off b)"

text \<open>
  A completed receive of at most \<open>cnt\<close> values into an array at offset \<open>off\<close>: the cells
  of the message are stored one after the other.
\<close>

definition recv_into :: "real list \<Rightarrow> nat \<Rightarrow> nat \<Rightarrow> real list \<Rightarrow> real list" where
  "recv_into b off cnt msg = fold (\<lambda>k c. c[off + k := msg ! k]) [0..<min cnt (length msg)] b"

subsection \<open>The local variables\<close>

text \<open>
  \<^verbatim>\<open>diff_norm\<close> is declared without an initialiser; \<open>None\<close> stands for its
  indeterminate value until the first assignment.
\<close>

record locals =
  heap :: store
  om :: buffer
  nm :: buffer
  send_east :: "real list"
  send_west :: "real list"
  recv_east :: "real list"
  recv_west :: "real list"
  iter :: int
  diff_norm :: "real option"
  events :: "event list"

text \<open>
  Lines 154 to 170: \<^verbatim>\<open>om = matrix\<close>, \<^verbatim>\<open>nm = calloc(...)\<close> (all cells zero), the four
  \<^verbatim>\<open>malloc\<close>s and the two communicator splits.
\<close>

definition jacobi_topology :: "world \<Rightarrow> nat \<Rightarrow> topology" where
  "jacobi_topology w P =
     \<lparr> rank = comm_rank w,
       ns_rank = split_rank (\<lambda>q. q mod P) (comm_rank w),
       ns_size = split_size (comm_size w) (\<lambda>q. q mod P) (comm_rank w),
       ew_rank = split_rank (\<lambda>q. q div P) (comm_rank w),
       ew_size = split_size (comm_size w) (\<lambda>q. q div P) (comm_rank w) \<rparr>"

definition jacobi_init :: "world \<Rightarrow> real list \<Rightarrow> nat \<Rightarrow> nat \<Rightarrow> nat \<Rightarrow> locals" where
  "jacobi_init w matrix NB MB P =
     \<lparr> heap = (\<lambda>b. case b of Matrix \<Rightarrow> matrix | Calloc \<Rightarrow> replicate ((NB + 2) * (MB + 2)) 0),
       om = Matrix,
       nm = Calloc,
       send_east = map (malloc_send_east w) [0..<MB],
       send_west = map (malloc_send_west w) [0..<MB],
       recv_east = map (malloc_recv_east w) [0..<MB],
       recv_west = map (malloc_recv_west w) [0..<MB],
       iter = 0,
       diff_norm = None,
       events = [Comm_split (comm_rank w mod P), Comm_split (comm_rank w div P)] \<rparr>"

subsection \<open>One iteration of the loop\<close>

text \<open>Lines 174 to 183: the diagnostic of rank 0 and the optional snapshot.\<close>

definition diagnostics :: "real \<Rightarrow> bool \<Rightarrow> topology \<Rightarrow> locals \<Rightarrow> locals" where
  "diagnostics epsilon save_output t s =
     s\<lparr> events := events s
          @ (if rank t = 0 then [Printf (iter s) (map_option sqrt (diff_norm s)) epsilon] else [])
          @ (if save_output then [Create_png (rank t) (iter s)] else []) \<rparr>"

text \<open>
  Lines 200 to 203, the packing loop: the first and the last interior column of \<^verbatim>\<open>om\<close>
  are copied into the two send arrays.
\<close>

definition pack ::
  "nat \<Rightarrow> nat \<Rightarrow> real list \<Rightarrow> real list \<times> real list \<Rightarrow> real list \<times> real list" where
  "pack NB MB b =
     fold (\<lambda>i (sw, se). (sw[i := b ! ((i + 1) * (NB + 2) + 1)],
                           se[i := b ! ((i + 1) * (NB + 2) + NB + 0)]))
       [0..<MB]"

text \<open>
  Lines 212 to 215, the unpacking loop: both receive arrays are copied into the west and
  the east ghost column of \<^verbatim>\<open>om\<close>, whether or not a receive was posted for them.
\<close>

definition unpack :: "nat \<Rightarrow> nat \<Rightarrow> real list \<Rightarrow> real list \<Rightarrow> real list \<Rightarrow> real list" where
  "unpack NB MB rw re =
     fold (\<lambda>i c. c[(i + 1) * (NB + 2) := rw ! i, (i + 1) * (NB + 2) + NB + 1 := re ! i])
       [0..<MB]"

text \<open>
  Lines 185 to 215. The receives are posted on \<^verbatim>\<open>om\<close> and on the two receive arrays, the
  sends read \<^verbatim>\<open>om\<close> and the two send arrays; after \<^verbatim>\<open>MPI_Waitall\<close> the posted
  receives have stored their messages, and the unpacking loop runs. Nothing here reads or
  writes \<^verbatim>\<open>nm\<close>.
\<close>

definition halo_exchange :: "world \<Rightarrow> nat \<Rightarrow> nat \<Rightarrow> topology \<Rightarrow> locals \<Rightarrow> locals" where
  "halo_exchange w NB MB t s =
     (let k = nat (iter s);
          b = heap s (om s);
          north = (0 \<noteq> ns_rank t);
          south = (int (ns_size t) - 1 \<noteq> int (ns_rank t));
          east = (int (ew_size t) - 1 \<noteq> int (ew_rank t));
          west = (0 \<noteq> ew_rank t);
          posted_recv =
            (if north then [Irecv North] else []) @ (if south then [Irecv South] else []) @
            (if east then [Irecv East] else []) @ (if west then [Irecv West] else []);
          posted_send_ns =
            (if north then [Isend North (slice b (SEND_NORTH NB MB) NB)] else []) @
            (if south then [Isend South (slice b (SEND_SOUTH NB MB) NB)] else []);
          (sw, se) = pack NB MB b (send_west s, send_east s);
          posted_send_ew =
            (if east then [Isend East se] else []) @ (if west then [Isend West sw] else []);
          b1 = (if north then recv_into b (RECV_NORTH NB MB) NB (incoming w k North) else b);
          b2 = (if south then recv_into b1 (RECV_SOUTH NB MB) NB (incoming w k South) else b1);
          re = (if east then recv_into (recv_east s) 0 MB (incoming w k East) else recv_east s);
          rw = (if west then recv_into (recv_west s) 0 MB (incoming w k West) else recv_west s);
          b3 = unpack NB MB rw re b2
      in s\<lparr> heap := (heap s)(om s := b3),
            send_west := sw, send_east := se, recv_west := rw, recv_east := re,
            events := events s @ posted_recv @ posted_send_ns @ posted_send_ew @ [Waitall] \<rparr>)"

text \<open>
  Lines 220 to 227: \<^verbatim>\<open>diff_norm = SOR1(nm, om, NB, MB)\<close>, the reduction in place over
  all processes, the swap of the two pointers and \<^verbatim>\<open>iter++\<close>.
\<close>

definition relax_and_swap :: "world \<Rightarrow> nat \<Rightarrow> nat \<Rightarrow> locals \<Rightarrow> locals" where
  "relax_and_swap w NB MB s =
     (let (h', local_norm) = SOR1 (heap s) (nm s) (om s) NB MB;
          tmpm = om s
      in s\<lparr> heap := h',
            diff_norm := Some (local_norm + sum_list (peer_norms w (nat (iter s)))),
            events := events s @ [Allreduce local_norm],
            om := nm s,
            nm := tmpm,
            iter := iter s + 1 \<rparr>)"

definition iteration ::
  "world \<Rightarrow> nat \<Rightarrow> nat \<Rightarrow> real \<Rightarrow> bool \<Rightarrow> topology \<Rightarrow> locals \<Rightarrow> locals" where
  "iteration w NB MB epsilon save_output t s =
     relax_and_swap w NB MB (halo_exchange w NB MB t (diagnostics epsilon save_output t s))"

text \<open>Each iteration increments \<^verbatim>\<open>iter\<close> once; the loop below terminates by this.\<close>

lemma iter_diagnostics: "iter (diagnostics epsilon save_output t s) = iter s"
  by (simp add: diagnostics_def)

lemma iter_halo_exchange: "iter (halo_exchange w NB MB t s) = iter s"
  by (simp add: halo_exchange_def Let_def case_prod_beta)

lemma iter_relax_and_swap: "iter (relax_and_swap w NB MB s) = iter s + 1"
  by (simp add: relax_and_swap_def Let_def case_prod_beta)

lemma iter_iteration: "iter (iteration w NB MB epsilon save_output t s) = iter s + 1"
  by (simp add: iteration_def iter_relax_and_swap iter_halo_exchange iter_diagnostics)

subsection \<open>The loop and the function\<close>

text \<open>
  \<^verbatim>\<open>do { ... } while (iter < max_iter);\<close> The test on \<^verbatim>\<open>epsilon\<close> is commented out in
  the source. \<^verbatim>\<open>iter\<close> stays below \<^verbatim>\<open>max_iter\<close> whenever it is incremented a second
  time, so the C \<^verbatim>\<open>int\<close> cannot overflow after the first iteration and is an \<^typ>\<open>int\<close> here.
\<close>

function jacobi_loop ::
  "world \<Rightarrow> nat \<Rightarrow> nat \<Rightarrow> real \<Rightarrow> int \<Rightarrow> bool \<Rightarrow> topology \<Rightarrow> locals \<Rightarrow> locals" where
  "jacobi_loop w NB MB epsilon max_iter save_output t s =
     (let s' = iteration w NB MB epsilon save_output t s
      in if iter s' < max_iter
         then jacobi_loop w NB MB epsilon max_iter save_output t s'
         else s')"
  by pat_completeness auto
termination
proof (relation "measure (\<lambda>(w, NB, MB, epsilon, max_iter, save_output, t, s). nat (max_iter - iter s))")
  show "wf (measure (\<lambda>(w, NB, MB, epsilon, max_iter, save_output, t, s). nat (max_iter - iter s)))"
    by simp
next
  fix w NB MB epsilon max_iter save_output t s s'
  assume "s' = iteration w NB MB epsilon save_output t s" and "iter s' < max_iter"
  then show "((w, NB, MB, epsilon, max_iter, save_output, t, s'),
              (w, NB, MB, epsilon, max_iter, save_output, t, s))
             \<in> measure (\<lambda>(w, NB, MB, epsilon, max_iter, save_output, t, s). nat (max_iter - iter s))"
    by (simp add: iter_iteration)
qed

declare jacobi_loop.simps [simp del]

text \<open>
  What the caller gets: the returned count, the local variables when the loop has ended
  (with the contents of both arrays at that moment) and the array that was freed.
\<close>

record outcome =
  returned :: int
  at_exit :: locals
  freed :: buffer
  trace :: "event list"

text \<open>
  Lines 230 to 245: the timings, \<^verbatim>\<open>if (matrix != om) free(om); else free(nm);\<close>, the
  release of the scratch arrays and communicators, \<^verbatim>\<open>return iter\<close>. The parameter
  \<^verbatim>\<open>Q\<close> is never used by the source.
\<close>

definition jacobi_cpu ::
  "world \<Rightarrow> real list \<Rightarrow> nat \<Rightarrow> nat \<Rightarrow> nat \<Rightarrow> nat \<Rightarrow> real \<Rightarrow> int \<Rightarrow> bool \<Rightarrow> error + outcome" where
  "jacobi_cpu w matrix NB MB P Q epsilon max_iter save_output =
     (if P = 0 then Inl Division_by_zero
      else
        let s = jacobi_loop w NB MB epsilon max_iter save_output (jacobi_topology w P)
                  (jacobi_init w matrix NB MB P);
            f = (if Matrix \<noteq> om s then om s else nm s)
        in Inr \<lparr> returned = iter s,
                 at_exit = s,
                 freed = f,
                 trace = events s @ [Print_timings, Free_grid f, Free_scratch, Free_scratch,
                                     Free_scratch, Free_scratch, Comm_free, Comm_free] \<rparr>)"

text \<open>
  After the loop \<^verbatim>\<open>om\<close> points to the array that the last pass has written (the swap
  follows the pass): the final iterate. The surviving array is the one of the two that was
  not freed.
\<close>

definition final_iterate :: "outcome \<Rightarrow> real list" where
  "final_iterate r = heap (at_exit r) (om (at_exit r))"

definition surviving :: "outcome \<Rightarrow> real list" where
  "surviving r = heap (at_exit r) (case freed r of Matrix \<Rightarrow> Calloc | Calloc \<Rightarrow> Matrix)"

text \<open>
  The grid of the worked scenario of the specification: \<open>ghost\<close> in every border cell and
  \<open>interior\<close> in every interior cell.
\<close>

definition uniform_grid :: "nat \<Rightarrow> nat \<Rightarrow> real \<Rightarrow> real \<Rightarrow> real list" where
  "uniform_grid NB MB interior ghost =
     map (\<lambda>p. if 1 \<le> p mod (NB + 2) \<and> p mod (NB + 2) \<le> NB \<and>
                 1 \<le> p div (NB + 2) \<and> p div (NB + 2) \<le> MB
              then interior else ghost)
       [0..<(NB + 2) * (MB + 2)]"

text \<open>A world with a single process and no traffic; its scratch arrays start as zeros.\<close>

definition lone_world :: world where
  "lone_world =
     \<lparr> comm_rank = 0, comm_size = 1,
       malloc_send_east = (\<lambda>_. 0), malloc_send_west = (\<lambda>_. 0),
       malloc_recv_east = (\<lambda>_. 0), malloc_recv_west = (\<lambda>_. 0),
       incoming = (\<lambda>_ _. []), peer_norms = (\<lambda>_. []) \<rparr>"


section \<open>Properties of the pass\<close>

lemma SOR1_cell_noalias:
  "dst \<noteq> src \<Longrightarrow> SOR1_cell dst src nb j i (h(dst := B), a) =
     (h(dst := fst (cell_step (h src) nb j i (B, a))), snd (cell_step (h src) nb j i (B, a)))"
  by (simp add: SOR1_cell_def cell_step_def Let_def)

lemma SOR1_row_noalias:
  "dst \<noteq> src \<Longrightarrow> fold (\<lambda>i. SOR1_cell dst src nb j i) xs (h(dst := B), a) =
     (h(dst := fst (fold (\<lambda>i. cell_step (h src) nb j i) xs (B, a))),
      snd (fold (\<lambda>i. cell_step (h src) nb j i) xs (B, a)))"
proof (induction xs arbitrary: B a)
  case Nil
  then show ?case by simp
next
  case (Cons x xs)
  obtain B' a' where st: "cell_step (h src) nb j x (B, a) = (B', a')"
    by (cases "cell_step (h src) nb j x (B, a)")
  show ?case
    apply (simp only: fold_simps o_apply)
    apply (subst SOR1_cell_noalias [OF Cons.prems])
    apply (simp only: st fst_conv snd_conv)
    apply (rule Cons.IH [OF Cons.prems])
    done
qed

lemma SOR1_grid_noalias:
  "dst \<noteq> src \<Longrightarrow>
   fold (\<lambda>j. fold (\<lambda>i. SOR1_cell dst src nb j i) [0..<nb]) ys (h(dst := B), a) =
     (h(dst := fst (fold (\<lambda>j. row_pass (h src) nb j nb) ys (B, a))),
      snd (fold (\<lambda>j. row_pass (h src) nb j nb) ys (B, a)))"
proof (induction ys arbitrary: B a)
  case Nil
  then show ?case by simp
next
  case (Cons y ys)
  obtain B' a' where st: "row_pass (h src) nb y nb (B, a) = (B', a')"
    by (cases "row_pass (h src) nb y nb (B, a)")
  show ?case
    apply (simp only: fold_simps o_apply)
    apply (subst SOR1_row_noalias [OF Cons.prems])
    apply (simp only: row_pass_def [symmetric] st fst_conv snd_conv)
    apply (rule Cons.IH [OF Cons.prems])
    done
qed

lemma SOR1_noalias:
  assumes "dst \<noteq> src"
  shows "SOR1 h dst src nb mb =
     (h(dst := fst (grid_pass (h src) nb mb (h dst, 0))), snd (grid_pass (h src) nb mb (h dst, 0)))"
proof -
  have "h = h(dst := h dst)" by simp
  then have "SOR1 h dst src nb mb =
      fold (\<lambda>j. fold (\<lambda>i. SOR1_cell dst src nb j i) [0..<nb]) [0..<mb] (h(dst := h dst), 0)"
    by (simp add: SOR1_def)
  then show ?thesis
    using SOR1_grid_noalias [OF assms, of nb "[0..<mb]" h "h dst" 0]
    by (simp add: grid_pass_def)
qed


subsection \<open>Index arithmetic\<close>

lemma lin_unique:
  fixes q q' r r' w :: nat
  assumes "r < w" "r' < w" "q * w + r = q' * w + r'"
  shows "q = q' \<and> r = r'"
proof -
  have "(q * w + r) div w = q" "(q' * w + r') div w = q'"
    using assms(1,2) by simp_all
  then have "q = q'" by (simp only: assms(3))
  then show ?thesis using assms(3) by simp
qed

lemma pos_of_inj:
  assumes "i < nb" "i' < nb" "pos_of nb i j = pos_of nb i' j'"
  shows "i = i' \<and> j = j'"
proof -
  have "(j + 1) * (nb + 2) + (1 + i) = (j' + 1) * (nb + 2) + (1 + i')"
    using assms(3) by (simp add: pos_of_def)
  from lin_unique [OF _ _ this] assms(1,2) show ?thesis by simp
qed

lemma pos_of_bound:
  assumes "i < nb" "j < mb"
  shows "pos_of nb i j + (nb + 2) < (nb + 2) * (mb + 2)"
proof -
  have "(j + 1) * (nb + 2) \<le> mb * (nb + 2)"
    using assms(2) by (intro mult_le_mono1) simp
  then show ?thesis using assms(1) by (simp add: pos_of_def algebra_simps)
qed

lemma pos_of_west:
  "0 < i \<Longrightarrow> pos_of nb i j - 1 = pos_of nb (i - 1) j"
  by (simp add: pos_of_def)

lemma pos_of_north:
  "0 < j \<Longrightarrow> pos_of nb i j - (nb + 2) = pos_of nb i (j - 1)"
  by (cases j) (simp_all add: pos_of_def)

lemma west_ghost_not_interior:
  assumes "i' < nb"
  shows "pos_of nb 0 j - 1 \<noteq> pos_of nb i' j'"
proof
  assume "pos_of nb 0 j - 1 = pos_of nb i' j'"
  then have "(j + 1) * (nb + 2) + 0 = (j' + 1) * (nb + 2) + (1 + i')"
    by (simp add: pos_of_def)
  from lin_unique [OF _ _ this] assms show False by simp
qed

lemma north_ghost_not_interior:
  assumes "i < nb" "i' < nb"
  shows "pos_of nb i 0 - (nb + 2) \<noteq> pos_of nb i' j'"
proof
  assume "pos_of nb i 0 - (nb + 2) = pos_of nb i' j'"
  then have "0 * (nb + 2) + (1 + i) = (j' + 1) * (nb + 2) + (1 + i')"
    by (simp add: pos_of_def)
  from lin_unique [OF _ _ this] assms show False by simp
qed


subsection \<open>One row of the pass\<close>

lemma cell_step_fst:
  "fst (cell_step A nb j i (B, a)) =
     B[pos_of nb i j := SOR1_update (SOR1_W nb) (A ! pos_of nb i j) (B ! (pos_of nb i j - 1))
        (A ! (pos_of nb i j + 1)) (B ! (pos_of nb i j - (nb + 2))) (A ! (pos_of nb i j + (nb + 2)))]"
  by (simp add: cell_step_def Let_def)

lemma cell_step_snd:
  "snd (cell_step A nb j i (B, a)) =
     a + (fst (cell_step A nb j i (B, a)) ! pos_of nb i j - A ! pos_of nb i j) *
         (fst (cell_step A nb j i (B, a)) ! pos_of nb i j - A ! pos_of nb i j)"
  by (simp add: cell_step_def Let_def)

lemma row_pass_0: "row_pass A nb j 0 s = s"
  by (simp add: row_pass_def)

lemma row_pass_Suc: "row_pass A nb j (Suc n) s = cell_step A nb j n (row_pass A nb j n s)"
  by (simp add: row_pass_def)

lemma row_length: "length (fst (row_pass A nb j n (B, a))) = length B"
proof (induction n)
  case 0
  show ?case by (simp add: row_pass_0)
next
  case (Suc n)
  obtain Bn an where st: "row_pass A nb j n (B, a) = (Bn, an)"
    by (cases "row_pass A nb j n (B, a)")
  with Suc show ?case by (simp add: row_pass_Suc cell_step_fst)
qed

lemma row_frame:
  "(\<forall>i<n. p \<noteq> pos_of nb i j) \<Longrightarrow> fst (row_pass A nb j n (B, a)) ! p = B ! p"
proof (induction n)
  case 0
  show ?case by (simp add: row_pass_0)
next
  case (Suc n)
  obtain Bn an where st: "row_pass A nb j n (B, a) = (Bn, an)"
    by (cases "row_pass A nb j n (B, a)")
  from Suc.prems have "p \<noteq> pos_of nb n j" and "\<forall>i<n. p \<noteq> pos_of nb i j" by simp_all
  with Suc.IH st show ?case by (simp add: row_pass_Suc cell_step_fst)
qed

lemma row_value:
  assumes "i < n" "n \<le> nb" "pos_of nb i j < length B"
  shows "fst (row_pass A nb j n (B, a)) ! pos_of nb i j =
     SOR1_update (SOR1_W nb) (A ! pos_of nb i j)
       (if i = 0 then B ! (pos_of nb i j - 1)
        else fst (row_pass A nb j n (B, a)) ! (pos_of nb i j - 1))
       (A ! (pos_of nb i j + 1))
       (B ! (pos_of nb i j - (nb + 2)))
       (A ! (pos_of nb i j + (nb + 2)))"
  using assms
proof (induction n)
  case 0
  then show ?case by simp
next
  case (Suc n)
  obtain Bn an where st: "row_pass A nb j n (B, a) = (Bn, an)"
    by (cases "row_pass A nb j n (B, a)")
  have len: "length Bn = length B"
    using row_length [of A nb j n B a] st by simp
  have Bn: "Bn = fst (row_pass A nb j n (B, a))" using st by simp
  show ?case
  proof (cases "i = n")
    case True
    have north: "Bn ! (pos_of nb n j - (nb + 2)) = B ! (pos_of nb n j - (nb + 2))"
      unfolding Bn using Suc.prems(2) by (intro row_frame) (auto simp add: pos_of_def)
    have west0: "n = 0 \<Longrightarrow> Bn = B" using st by (simp add: row_pass_0)
    have neq: "pos_of nb n j - 1 \<noteq> pos_of nb n j" by (simp add: pos_of_def)
    show ?thesis
      using True Suc.prems(3) north west0 neq
      by (simp add: row_pass_Suc st cell_step_fst len)
  next
    case False
    with Suc.prems have i: "i < n" and n: "n \<le> nb" by simp_all
    have ne1: "pos_of nb i j \<noteq> pos_of nb n j" using i by (simp add: pos_of_def)
    have ne2: "pos_of nb i j - 1 \<noteq> pos_of nb n j" using i by (simp add: pos_of_def)
    have IH: "Bn ! pos_of nb i j =
       SOR1_update (SOR1_W nb) (A ! pos_of nb i j)
         (if i = 0 then B ! (pos_of nb i j - 1) else Bn ! (pos_of nb i j - 1))
         (A ! (pos_of nb i j + 1)) (B ! (pos_of nb i j - (nb + 2)))
         (A ! (pos_of nb i j + (nb + 2)))"
      using Suc.IH [OF i n Suc.prems(3)] st by simp
    show ?thesis
      using ne1 ne2 IH by (simp add: row_pass_Suc st cell_step_fst)
  qed
qed

lemma row_norm:
  assumes "n \<le> nb" "\<forall>i<n. pos_of nb i j < length B"
  shows "snd (row_pass A nb j n (B, a)) =
     a + (\<Sum>i<n. (fst (row_pass A nb j n (B, a)) ! pos_of nb i j - A ! pos_of nb i j) *
                   (fst (row_pass A nb j n (B, a)) ! pos_of nb i j - A ! pos_of nb i j))"
  using assms
proof (induction n)
  case 0
  show ?case by (simp add: row_pass_0)
next
  case (Suc n)
  obtain Bn an where st: "row_pass A nb j n (B, a) = (Bn, an)"
    by (cases "row_pass A nb j n (B, a)")
  let ?C = "fst (cell_step A nb j n (Bn, an))"
  have keep: "?C ! pos_of nb i j = Bn ! pos_of nb i j" if "i < n" for i
    using that by (simp add: cell_step_fst pos_of_def)
  have an: "an = a + (\<Sum>i<n. (Bn ! pos_of nb i j - A ! pos_of nb i j) *
                               (Bn ! pos_of nb i j - A ! pos_of nb i j))"
    using Suc st by simp
  have "snd (row_pass A nb j (Suc n) (B, a)) =
      an + (?C ! pos_of nb n j - A ! pos_of nb n j) * (?C ! pos_of nb n j - A ! pos_of nb n j)"
    by (simp add: row_pass_Suc st cell_step_snd)
  also have "\<dots> = a + (\<Sum>i<Suc n. (?C ! pos_of nb i j - A ! pos_of nb i j) *
                                     (?C ! pos_of nb i j - A ! pos_of nb i j))"
  proof -
    have "(\<Sum>i<n. (?C ! pos_of nb i j - A ! pos_of nb i j) *
                     (?C ! pos_of nb i j - A ! pos_of nb i j)) =
          (\<Sum>i<n. (Bn ! pos_of nb i j - A ! pos_of nb i j) *
                     (Bn ! pos_of nb i j - A ! pos_of nb i j))"
      by (rule sum.cong) (simp_all add: keep)
    then show ?thesis by (simp only: sum.lessThan_Suc an)
  qed
  finally show ?case by (simp add: row_pass_Suc st)
qed


subsection \<open>The whole pass\<close>

lemma grid_pass_0: "grid_pass A nb 0 s = s"
  by (simp add: grid_pass_def)

lemma grid_pass_Suc: "grid_pass A nb (Suc m) s = row_pass A nb m nb (grid_pass A nb m s)"
  by (simp add: grid_pass_def)

lemma grid_length: "length (fst (grid_pass A nb m (B, a))) = length B"
proof (induction m)
  case 0
  show ?case by (simp add: grid_pass_0)
next
  case (Suc m)
  obtain Bm am where st: "grid_pass A nb m (B, a) = (Bm, am)"
    by (cases "grid_pass A nb m (B, a)")
  with Suc show ?case by (simp add: grid_pass_Suc row_length)
qed

lemma grid_frame:
  "(\<forall>j<m. \<forall>i<nb. p \<noteq> pos_of nb i j) \<Longrightarrow> fst (grid_pass A nb m (B, a)) ! p = B ! p"
proof (induction m)
  case 0
  show ?case by (simp add: grid_pass_0)
next
  case (Suc m)
  obtain Bm am where st: "grid_pass A nb m (B, a) = (Bm, am)"
    by (cases "grid_pass A nb m (B, a)")
  from Suc.prems have row: "\<forall>i<nb. p \<noteq> pos_of nb i m"
    and rest: "\<forall>j<m. \<forall>i<nb. p \<noteq> pos_of nb i j" by simp_all
  have "fst (row_pass A nb m nb (Bm, am)) ! p = Bm ! p"
    using row by (rule row_frame)
  with Suc.IH [OF rest] st show ?case by (simp add: grid_pass_Suc)
qed

lemma grid_value:
  assumes "i < nb" "j < m" "pos_of nb i j < length B"
  shows "fst (grid_pass A nb m (B, a)) ! pos_of nb i j =
     SOR1_update (SOR1_W nb) (A ! pos_of nb i j)
       (if i = 0 then B ! (pos_of nb i j - 1)
        else fst (grid_pass A nb m (B, a)) ! (pos_of nb i j - 1))
       (A ! (pos_of nb i j + 1))
       (if j = 0 then B ! (pos_of nb i j - (nb + 2))
        else fst (grid_pass A nb m (B, a)) ! (pos_of nb i j - (nb + 2)))
       (A ! (pos_of nb i j + (nb + 2)))"
  using assms
proof (induction m)
  case 0
  then show ?case by simp
next
  case (Suc m)
  obtain Bm am where st: "grid_pass A nb m (B, a) = (Bm, am)"
    by (cases "grid_pass A nb m (B, a)")
  have Bm: "Bm = fst (grid_pass A nb m (B, a))" using st by simp
  have len: "length Bm = length B"
    using grid_length [of A nb m B a] st by simp
  let ?G = "fst (row_pass A nb m nb (Bm, am))"
  have G: "fst (grid_pass A nb (Suc m) (B, a)) = ?G"
    by (simp add: grid_pass_Suc st)
  have other_row: "?G ! pos_of nb i' j' = Bm ! pos_of nb i' j'" if "i' < nb" "j' < m" for i' j'
  proof (rule row_frame, intro allI impI)
    fix k assume "k < nb"
    show "pos_of nb i' j' \<noteq> pos_of nb k m"
      using pos_of_inj [of i' nb k j' m] that \<open>k < nb\<close> by auto
  qed
  show ?case
  proof (cases "j = m")
    case True
    have row: "?G ! pos_of nb i m =
       SOR1_update (SOR1_W nb) (A ! pos_of nb i m)
         (if i = 0 then Bm ! (pos_of nb i m - 1) else ?G ! (pos_of nb i m - 1))
         (A ! (pos_of nb i m + 1)) (Bm ! (pos_of nb i m - (nb + 2)))
         (A ! (pos_of nb i m + (nb + 2)))"
      using Suc.prems True len by (intro row_value) simp_all
    have west: "Bm ! (pos_of nb 0 m - 1) = B ! (pos_of nb 0 m - 1)"
      unfolding Bm by (intro grid_frame allI impI west_ghost_not_interior)
    have north0: "m = 0 \<Longrightarrow> Bm = B" using st by (simp add: grid_pass_0)
    have north: "Bm ! (pos_of nb i m - (nb + 2)) = ?G ! (pos_of nb i m - (nb + 2))" if "0 < m"
      using that other_row [of i "m - 1"] Suc.prems(1) pos_of_north [of m nb i] by simp
    show ?thesis
      unfolding G using True row west north0 north by (cases "m = 0") auto
  next
    case False
    with Suc.prems have j: "j < m" by simp
    have IH: "Bm ! pos_of nb i j =
       SOR1_update (SOR1_W nb) (A ! pos_of nb i j)
         (if i = 0 then B ! (pos_of nb i j - 1) else Bm ! (pos_of nb i j - 1))
         (A ! (pos_of nb i j + 1))
         (if j = 0 then B ! (pos_of nb i j - (nb + 2)) else Bm ! (pos_of nb i j - (nb + 2)))
         (A ! (pos_of nb i j + (nb + 2)))"
      using Suc.IH [OF Suc.prems(1) j Suc.prems(3)] st by simp
    have w: "?G ! (pos_of nb i j - 1) = Bm ! (pos_of nb i j - 1)" if "0 < i"
      using that other_row [of "i - 1" j] Suc.prems(1) j pos_of_west [of i nb j] by simp
    have n: "?G ! (pos_of nb i j - (nb + 2)) = Bm ! (pos_of nb i j - (nb + 2))" if "0 < j"
      using that other_row [of i "j - 1"] Suc.prems(1) j pos_of_north [of j nb i] by simp
    show ?thesis
      unfolding G using IH w n other_row [OF Suc.prems(1) j] by auto
  qed
qed

lemma grid_norm:
  assumes "\<forall>j<m. \<forall>i<nb. pos_of nb i j < length B"
  shows "snd (grid_pass A nb m (B, a)) =
     a + (\<Sum>j<m. \<Sum>i<nb.
            (fst (grid_pass A nb m (B, a)) ! pos_of nb i j - A ! pos_of nb i j) *
            (fst (grid_pass A nb m (B, a)) ! pos_of nb i j - A ! pos_of nb i j))"
  using assms
proof (induction m)
  case 0
  show ?case by (simp add: grid_pass_0)
next
  case (Suc m)
  obtain Bm am where st: "grid_pass A nb m (B, a) = (Bm, am)"
    by (cases "grid_pass A nb m (B, a)")
  have len: "length Bm = length B"
    using grid_length [of A nb m B a] st by simp
  let ?G = "fst (row_pass A nb m nb (Bm, am))"
  have G: "grid_pass A nb (Suc m) (B, a) = row_pass A nb m nb (Bm, am)"
    by (simp add: grid_pass_Suc st)
  have other_row: "?G ! pos_of nb i' j' = Bm ! pos_of nb i' j'" if "i' < nb" "j' < m" for i' j'
  proof (rule row_frame, intro allI impI)
    fix k assume "k < nb"
    show "pos_of nb i' j' \<noteq> pos_of nb k m"
      using pos_of_inj [of i' nb k j' m] that \<open>k < nb\<close> by auto
  qed
  have am: "am = a + (\<Sum>j<m. \<Sum>i<nb. (Bm ! pos_of nb i j - A ! pos_of nb i j) *
                                        (Bm ! pos_of nb i j - A ! pos_of nb i j))"
    using Suc st by simp
  have old: "(\<Sum>j<m. \<Sum>i<nb. (?G ! pos_of nb i j - A ! pos_of nb i j) *
                             (?G ! pos_of nb i j - A ! pos_of nb i j)) =
             (\<Sum>j<m. \<Sum>i<nb. (Bm ! pos_of nb i j - A ! pos_of nb i j) *
                             (Bm ! pos_of nb i j - A ! pos_of nb i j))"
    by (intro sum.cong refl) (simp add: other_row)
  have new: "snd (row_pass A nb m nb (Bm, am)) =
      am + (\<Sum>i<nb. (?G ! pos_of nb i m - A ! pos_of nb i m) *
                      (?G ! pos_of nb i m - A ! pos_of nb i m))"
    using Suc.prems len by (intro row_norm) simp_all
  show ?case
    using new am unfolding G sum.lessThan_Suc old by linarith
qed
subsection \<open>The pass as \<^verbatim>\<open>jacobi_cpu\<close> calls it: two different arrays\<close>

lemma SOR1_fst:
  "dst \<noteq> src \<Longrightarrow>
   fst (SOR1 h dst src nb mb) = h(dst := fst (grid_pass (h src) nb mb (h dst, 0)))"
  by (simp add: SOR1_noalias)

lemma SOR1_snd:
  "dst \<noteq> src \<Longrightarrow> snd (SOR1 h dst src nb mb) = snd (grid_pass (h src) nb mb (h dst, 0))"
  by (simp add: SOR1_noalias)

lemma SOR1_dst:
  "dst \<noteq> src \<Longrightarrow>
   fst (SOR1 h dst src nb mb) dst = fst (grid_pass (h src) nb mb (h dst, 0))"
  by (simp add: SOR1_fst)

lemma SOR1_other:
  "dst \<noteq> src \<Longrightarrow> b \<noteq> dst \<Longrightarrow> fst (SOR1 h dst src nb mb) b = h b"
  by (simp add: SOR1_fst)

lemma pos_of_in_range:
  assumes "(nb + 2) * (mb + 2) \<le> n" "i < nb" "j < mb"
  shows "pos_of nb i j < n"
  using pos_of_bound [OF assms(2,3)] assms(1) by simp

section \<open>The claims about \<^verbatim>\<open>SOR1\<close>\<close>

text \<open>
  C7. The weights of the update add up to one, \<open>(1 - W) + 4 * (W / 4) = 1\<close> with
  \<open>W = 2 / (1 + pi / NB)\<close>, for every \<open>NB\<close>; so the update is an affine combination of the
  old value and the four values around it: five equal inputs give that same value back.
  (Exact arithmetic; the rounding of \<^verbatim>\<open>TYPE\<close> is not modelled.)
\<close>

theorem SOR1_weights_sum_to_one:
  "(1 - SOR1_W nb) + 4 * (SOR1_W nb / 4) = 1
   \<and> SOR1_W nb = 2 / (1 + pi / real nb)
   \<and> SOR1_update (SOR1_W nb) c c c c c = c
   \<and> SOR1_update (SOR1_W nb) c west east north south =
       (1 - SOR1_W nb) * c + SOR1_W nb / 4 * west + SOR1_W nb / 4 * east
         + SOR1_W nb / 4 * north + SOR1_W nb / 4 * south"
proof -
  have "SOR1_update (SOR1_W nb) c c c c c = c"
    by (simp add: SOR1_update_def algebra_simps)
  moreover have "SOR1_update (SOR1_W nb) c west east north south =
       (1 - SOR1_W nb) * c + SOR1_W nb / 4 * west + SOR1_W nb / 4 * east
         + SOR1_W nb / 4 * north + SOR1_W nb / 4 * south"
    by (simp add: SOR1_update_def distrib_left)
  moreover have "(1 - SOR1_W nb) + 4 * (SOR1_W nb / 4) = 1"
    by simp
  ultimately show ?thesis
    by (simp only: SOR1_W_def simp_thms)
qed

text \<open>
  C1. After one pass over a destination array \<open>dst\<close> and a different source array \<open>src\<close>,
  every interior cell \<open>(i, j)\<close> of the destination, at index
  \<open>pos = 1 + i + (j + 1) * (nb + 2)\<close>, holds
  \<open>(1 - W) * src[pos] + W / 4 * (west + src[pos + 1] + north + src[pos + (nb + 2)])\<close>
  with \<open>W = 2 / (1 + pi / nb)\<close>. The west and north values are read from the
  destination as the row-major traversal has left it: the new value of the cell to the
  west (of the cell above), and for the first column (the first row) the ghost cell of the
  destination, which the pass has not written. East and south are read from the source.
\<close>

theorem SOR1_interior_value:
  assumes "dst \<noteq> src" and "(nb + 2) * (mb + 2) \<le> length (h dst)" and "i < nb" and "j < mb"
  shows "pos_of nb i j = 1 + i + (j + 1) * (nb + 2)
     \<and> SOR1_W nb = 2 / (1 + pi / real nb)
     \<and> fst (SOR1 h dst src nb mb) dst ! pos_of nb i j =
         (1 - SOR1_W nb) * (h src ! pos_of nb i j)
         + SOR1_W nb / 4 *
             ((if i = 0 then h dst else fst (SOR1 h dst src nb mb) dst) ! (pos_of nb i j - 1)
              + h src ! (pos_of nb i j + 1)
              + (if j = 0 then h dst else fst (SOR1 h dst src nb mb) dst) ! (pos_of nb i j - (nb + 2))
              + h src ! (pos_of nb i j + (nb + 2)))"
proof -
  have "pos_of nb i j < length (h dst)"
    using assms(2-4) by (rule pos_of_in_range)
  from grid_value [OF assms(3,4) this, of "h src" 0]
  show ?thesis
    by (simp add: SOR1_dst [OF assms(1)] SOR1_update_def pos_of_def SOR1_W_def if_distrib
             cong: if_cong)
qed

theorem SOR1_interior_value_witness:
  "Calloc \<noteq> Matrix
   \<and> (2 + 2) * (2 + 2) \<le> length (replicate 16 (0::real))
   \<and> (1::nat) < 2
   \<and> fst (SOR1 (\<lambda>b. case b of Matrix \<Rightarrow> uniform_grid 2 2 0 10 | Calloc \<Rightarrow> replicate 16 0)
             Calloc Matrix 2 2) Calloc ! pos_of 2 1 1 =
       (1 - SOR1_W 2) * (uniform_grid 2 2 0 10 ! pos_of 2 1 1)
       + SOR1_W 2 / 4 *
           (fst (SOR1 (\<lambda>b. case b of Matrix \<Rightarrow> uniform_grid 2 2 0 10 | Calloc \<Rightarrow> replicate 16 0)
                   Calloc Matrix 2 2) Calloc ! (pos_of 2 1 1 - 1)
            + uniform_grid 2 2 0 10 ! (pos_of 2 1 1 + 1)
            + fst (SOR1 (\<lambda>b. case b of Matrix \<Rightarrow> uniform_grid 2 2 0 10 | Calloc \<Rightarrow> replicate 16 0)
                     Calloc Matrix 2 2) Calloc ! (pos_of 2 1 1 - (2 + 2))
            + uniform_grid 2 2 0 10 ! (pos_of 2 1 1 + (2 + 2)))"
  using SOR1_interior_value
    [of Calloc Matrix 2 2 "\<lambda>b. case b of Matrix \<Rightarrow> uniform_grid 2 2 0 10 | Calloc \<Rightarrow> replicate 16 0" 1 1]
  by (simp add: pos_of_def SOR1_W_def)

text \<open>
  C2. The value returned by a pass over two different arrays is the sum, over the
  \<open>nb * mb\<close> interior cells and no other cell, of the squared difference between the new
  value of the cell in the destination and its old value in the source. It is zero when
  every interior cell has got the value it had in the source.
\<close>

theorem SOR1_returns_sum_of_squares:
  assumes "dst \<noteq> src" and "(nb + 2) * (mb + 2) \<le> length (h dst)"
  shows "snd (SOR1 h dst src nb mb) =
           (\<Sum>j<mb. \<Sum>i<nb.
              (fst (SOR1 h dst src nb mb) dst ! pos_of nb i j - h src ! pos_of nb i j) *
              (fst (SOR1 h dst src nb mb) dst ! pos_of nb i j - h src ! pos_of nb i j))
     \<and> ((\<forall>j<mb. \<forall>i<nb. fst (SOR1 h dst src nb mb) dst ! pos_of nb i j = h src ! pos_of nb i j)
          \<longrightarrow> snd (SOR1 h dst src nb mb) = 0)"
proof -
  have "\<forall>j<mb. \<forall>i<nb. pos_of nb i j < length (h dst)"
    using assms(2) by (auto intro: pos_of_in_range)
  from grid_norm [OF this, of "h src" 0]
  have sum: "snd (SOR1 h dst src nb mb) =
           (\<Sum>j<mb. \<Sum>i<nb.
              (fst (SOR1 h dst src nb mb) dst ! pos_of nb i j - h src ! pos_of nb i j) *
              (fst (SOR1 h dst src nb mb) dst ! pos_of nb i j - h src ! pos_of nb i j))"
    by (simp add: SOR1_dst [OF assms(1)] SOR1_snd [OF assms(1)])
  have "snd (SOR1 h dst src nb mb) = 0"
    if "\<forall>j<mb. \<forall>i<nb. fst (SOR1 h dst src nb mb) dst ! pos_of nb i j = h src ! pos_of nb i j"
    by (subst sum) (simp add: that)
  with sum show ?thesis by blast
qed

theorem SOR1_returns_sum_of_squares_witness:
  "Calloc \<noteq> Matrix
   \<and> (1 + 2) * (1 + 2) \<le> length (replicate 9 (0::real))
   \<and> fst (SOR1 (\<lambda>_. replicate 9 0) Calloc Matrix 1 1) Calloc ! pos_of 1 0 0 =
       replicate 9 (0::real) ! pos_of 1 0 0
   \<and> snd (SOR1 (\<lambda>_. replicate 9 0) Calloc Matrix 1 1) =
       (fst (SOR1 (\<lambda>_. replicate 9 0) Calloc Matrix 1 1) Calloc ! pos_of 1 0 0
          - replicate 9 (0::real) ! pos_of 1 0 0) *
       (fst (SOR1 (\<lambda>_. replicate 9 0) Calloc Matrix 1 1) Calloc ! pos_of 1 0 0
          - replicate 9 (0::real) ! pos_of 1 0 0)
   \<and> snd (SOR1 (\<lambda>_. replicate 9 0) Calloc Matrix 1 1) = 0"
proof -
  have cell: "fst (SOR1 (\<lambda>_. replicate 9 0) Calloc Matrix 1 1) Calloc ! pos_of 1 0 0 = 0"
    by (simp add: SOR1_def SOR1_cell_def SOR1_update_def pos_of_def Let_def)
  show ?thesis
    using SOR1_returns_sum_of_squares [of Calloc Matrix 1 1 "\<lambda>_. replicate 9 0"] cell
    by (simp add: pos_of_def)
qed

text \<open>
  C8. A pass over two different arrays leaves the source array and every array other than
  the destination as they were, keeps the length of the destination, and changes no cell
  of the destination whose index is not that of an interior cell.
\<close>

theorem SOR1_writes_interior_only:
  assumes "dst \<noteq> src" and "\<forall>j<mb. \<forall>i<nb. p \<noteq> pos_of nb i j" and "b \<noteq> dst"
  shows "fst (SOR1 h dst src nb mb) src = h src
     \<and> fst (SOR1 h dst src nb mb) b = h b
     \<and> length (fst (SOR1 h dst src nb mb) dst) = length (h dst)
     \<and> fst (SOR1 h dst src nb mb) dst ! p = h dst ! p"
proof -
  have "fst (grid_pass (h src) nb mb (h dst, 0)) ! p = h dst ! p"
    using assms(2) by (rule grid_frame)
  then show ?thesis
    using assms(1,3) by (simp add: SOR1_fst grid_length)
qed

theorem SOR1_writes_interior_only_witness:
  "Calloc \<noteq> Matrix
   \<and> fst (SOR1 (\<lambda>b. case b of Matrix \<Rightarrow> uniform_grid 2 2 0 10 | Calloc \<Rightarrow> replicate 16 0)
            Calloc Matrix 2 2) Matrix = uniform_grid 2 2 0 10
   \<and> length (fst (SOR1 (\<lambda>b. case b of Matrix \<Rightarrow> uniform_grid 2 2 0 10 | Calloc \<Rightarrow> replicate 16 0)
            Calloc Matrix 2 2) Calloc) = 16
   \<and> fst (SOR1 (\<lambda>b. case b of Matrix \<Rightarrow> uniform_grid 2 2 0 10 | Calloc \<Rightarrow> replicate 16 0)
            Calloc Matrix 2 2) Calloc ! 4 = 0"
  using SOR1_writes_interior_only
    [of Calloc Matrix 2 2 4 Matrix
        "\<lambda>b. case b of Matrix \<Rightarrow> uniform_grid 2 2 0 10 | Calloc \<Rightarrow> replicate 16 0"]
  by (simp add: pos_of_def)

section \<open>Properties of the driver\<close>

subsection \<open>Array writes\<close>

lemma recv_into_length: "length (recv_into b off cnt msg) = length b"
proof -
  have "length (fold (\<lambda>k c. c[off + k := msg ! k]) ks b) = length b" for ks
    by (induction ks arbitrary: b) simp_all
  then show ?thesis by (simp add: recv_into_def)
qed

lemma recv_into_frame:
  assumes "p < off \<or> off + cnt \<le> p"
  shows "recv_into b off cnt msg ! p = b ! p"
proof -
  have "fold (\<lambda>k c. c[off + k := msg ! k]) ks b ! p = b ! p" if "\<forall>k\<in>set ks. p \<noteq> off + k" for ks
    using that by (induction ks arbitrary: b) simp_all
  moreover have "\<forall>k\<in>set [0..<min cnt (length msg)]. p \<noteq> off + k"
    using assms by auto
  ultimately show ?thesis by (simp add: recv_into_def)
qed

lemma unpack_length: "length (unpack NB MB rw re b) = length b"
proof -
  have "length (fold (\<lambda>i c. c[(i + 1) * (NB + 2) := rw ! i, (i + 1) * (NB + 2) + NB + 1 := re ! i])
                  ks b) = length b" for ks
    by (induction ks arbitrary: b) simp_all
  then show ?thesis by (simp add: unpack_def)
qed

lemma unpack_frame:
  assumes "\<forall>i<MB. p \<noteq> (i + 1) * (NB + 2) \<and> p \<noteq> (i + 1) * (NB + 2) + NB + 1"
  shows "unpack NB MB rw re b ! p = b ! p"
proof -
  have "fold (\<lambda>i c. c[(i + 1) * (NB + 2) := rw ! i, (i + 1) * (NB + 2) + NB + 1 := re ! i]) ks b ! p
          = b ! p"
    if "\<forall>i\<in>set ks. p \<noteq> (i + 1) * (NB + 2) \<and> p \<noteq> (i + 1) * (NB + 2) + NB + 1" for ks
    using that by (induction ks arbitrary: b) simp_all
  moreover have "\<forall>i\<in>set [0..<MB]. p \<noteq> (i + 1) * (NB + 2) \<and> p \<noteq> (i + 1) * (NB + 2) + NB + 1"
    using assms by simp
  ultimately show ?thesis by (simp add: unpack_def)
qed

subsection \<open>The steps of one iteration, field by field\<close>

lemma diagnostics_fields:
  "heap (diagnostics epsilon save_output t s) = heap s"
  "om (diagnostics epsilon save_output t s) = om s"
  "nm (diagnostics epsilon save_output t s) = nm s"
  "diff_norm (diagnostics epsilon save_output t s) = diff_norm s"
  "recv_east (diagnostics epsilon save_output t s) = recv_east s"
  "recv_west (diagnostics epsilon save_output t s) = recv_west s"
  by (simp_all add: diagnostics_def)

lemma halo_exchange_fields:
  "om (halo_exchange w NB MB t s) = om s"
  "nm (halo_exchange w NB MB t s) = nm s"
  "diff_norm (halo_exchange w NB MB t s) = diff_norm s"
  by (simp_all add: halo_exchange_def Let_def case_prod_beta)

lemma halo_exchange_other:
  "b \<noteq> om s \<Longrightarrow> heap (halo_exchange w NB MB t s) b = heap s b"
  by (simp add: halo_exchange_def Let_def case_prod_beta)

lemma halo_exchange_length:
  "length (heap (halo_exchange w NB MB t s) b) = length (heap s b)"
  by (simp add: halo_exchange_def Let_def case_prod_beta unpack_length recv_into_length)

lemma halo_exchange_frame:
  assumes "\<forall>i<MB. p \<noteq> (i + 1) * (NB + 2) \<and> p \<noteq> (i + 1) * (NB + 2) + NB + 1"
    and "0 \<noteq> ns_rank t \<longrightarrow> p < RECV_NORTH NB MB \<or> RECV_NORTH NB MB + NB \<le> p"
    and "int (ns_size t) - 1 \<noteq> int (ns_rank t) \<longrightarrow>
           p < RECV_SOUTH NB MB \<or> RECV_SOUTH NB MB + NB \<le> p"
  shows "heap (halo_exchange w NB MB t s) b ! p = heap s b ! p"
proof (cases "b = om s")
  case False
  then show ?thesis by (simp add: halo_exchange_other)
next
  case True
  show ?thesis
    using assms(2,3)
    by (simp add: True halo_exchange_def Let_def case_prod_beta unpack_frame [OF assms(1)]
          recv_into_frame)
qed

lemma halo_exchange_interior:
  assumes "i < NB" "j < MB"
  shows "heap (halo_exchange w NB MB t s) b ! pos_of NB i j = heap s b ! pos_of NB i j"
proof (rule halo_exchange_frame)
  show "\<forall>k<MB. pos_of NB i j \<noteq> (k + 1) * (NB + 2) \<and> pos_of NB i j \<noteq> (k + 1) * (NB + 2) + NB + 1"
  proof (intro allI impI conjI notI)
    fix k
    assume "pos_of NB i j = (k + 1) * (NB + 2)"
    then have "(j + 1) * (NB + 2) + (1 + i) = (k + 1) * (NB + 2) + 0"
      by (simp add: pos_of_def)
    from lin_unique [OF _ _ this] assms(1) show False by simp
  next
    fix k
    assume "pos_of NB i j = (k + 1) * (NB + 2) + NB + 1"
    then have "(j + 1) * (NB + 2) + (1 + i) = (k + 1) * (NB + 2) + (NB + 1)"
      by (simp add: pos_of_def)
    from lin_unique [OF _ _ this] assms(1) show False by simp
  qed
next
  show "0 \<noteq> ns_rank t \<longrightarrow>
          pos_of NB i j < RECV_NORTH NB MB \<or> RECV_NORTH NB MB + NB \<le> pos_of NB i j"
    by (simp add: RECV_NORTH_def pos_of_def)
next
  have "(j + 1) * (NB + 2) \<le> MB * (NB + 2)"
    using assms(2) by (intro mult_le_mono1) simp
  then show "int (ns_size t) - 1 \<noteq> int (ns_rank t) \<longrightarrow>
          pos_of NB i j < RECV_SOUTH NB MB \<or> RECV_SOUTH NB MB + NB \<le> pos_of NB i j"
    using assms(1) by (simp add: RECV_SOUTH_def pos_of_def)
qed

lemma relax_and_swap_fields:
  "om (relax_and_swap w NB MB s) = nm s"
  "nm (relax_and_swap w NB MB s) = om s"
  "heap (relax_and_swap w NB MB s) = fst (SOR1 (heap s) (nm s) (om s) NB MB)"
  "diff_norm (relax_and_swap w NB MB s) =
     Some (snd (SOR1 (heap s) (nm s) (om s) NB MB) + sum_list (peer_norms w (nat (iter s))))"
  "events (relax_and_swap w NB MB s) =
     events s @ [Allreduce (snd (SOR1 (heap s) (nm s) (om s) NB MB))]"
  by (simp_all add: relax_and_swap_def Let_def case_prod_beta)

lemma iteration_fields:
  "om (iteration w NB MB epsilon save_output t s) = nm s"
  "nm (iteration w NB MB epsilon save_output t s) = om s"
  by (simp_all add: iteration_def relax_and_swap_fields halo_exchange_fields diagnostics_fields)

lemma iteration_heap:
  "heap (iteration w NB MB epsilon save_output t s) =
     fst (SOR1 (heap (halo_exchange w NB MB t (diagnostics epsilon save_output t s)))
            (nm s) (om s) NB MB)"
  by (simp add: iteration_def relax_and_swap_fields halo_exchange_fields diagnostics_fields)

lemma halo_exchange_events:
  "\<exists>ys. events (halo_exchange w NB MB t s) = events s @ ys"
  by (simp add: halo_exchange_def Let_def case_prod_beta)

lemma iteration_events:
  "\<exists>ys x. events (iteration w NB MB epsilon save_output t s) =
     events s
     @ (if rank t = 0 then [Printf (iter s) (map_option sqrt (diff_norm s)) epsilon] else [])
     @ ys @ [Allreduce x]"
proof -
  obtain ys where
    "events (halo_exchange w NB MB t (diagnostics epsilon save_output t s)) =
       events (diagnostics epsilon save_output t s) @ ys"
    using halo_exchange_events by blast
  then have "events (iteration w NB MB epsilon save_output t s) =
     events s
     @ (if rank t = 0 then [Printf (iter s) (map_option sqrt (diff_norm s)) epsilon] else [])
     @ ((if save_output then [Create_png (rank t) (iter s)] else []) @ ys)
     @ [Allreduce (snd (SOR1 (heap (halo_exchange w NB MB t (diagnostics epsilon save_output t s)))
                         (nm s) (om s) NB MB))]"
    by (simp add: iteration_def relax_and_swap_fields halo_exchange_fields diagnostics_fields
          diagnostics_def)
  then show ?thesis by blast
qed

subsection \<open>The loop\<close>

lemma jacobi_loop_unfold:
  "jacobi_loop w NB MB epsilon max_iter save_output t s =
     (if iter s + 1 < max_iter
      then jacobi_loop w NB MB epsilon max_iter save_output t
             (iteration w NB MB epsilon save_output t s)
      else iteration w NB MB epsilon save_output t s)"
  by (subst jacobi_loop.simps) (simp add: Let_def iter_iteration)

lemma jacobi_loop_last:
  "max_iter \<le> iter s + 1 \<Longrightarrow>
   jacobi_loop w NB MB epsilon max_iter save_output t s = iteration w NB MB epsilon save_output t s"
  by (subst jacobi_loop_unfold) simp

lemma jacobi_loop_iter:
  "iter (jacobi_loop w NB MB epsilon max_iter save_output t s) = max (iter s + 1) max_iter"
proof (induction w NB MB epsilon max_iter save_output t s rule: jacobi_loop.induct)
  case (1 w NB MB epsilon max_iter save_output t s)
  show ?case
  proof (cases "iter s + 1 < max_iter")
    case True
    then have "iter (iteration w NB MB epsilon save_output t s) < max_iter"
      by (simp add: iter_iteration)
    from "1.IH" [OF refl this] True show ?thesis
      by (subst jacobi_loop_unfold) (simp add: iter_iteration)
  next
    case False
    then show ?thesis
      by (subst jacobi_loop_unfold) (simp add: iter_iteration)
  qed
qed

lemma jacobi_loop_events:
  "\<exists>ys. events (jacobi_loop w NB MB epsilon max_iter save_output t s) =
     events (iteration w NB MB epsilon save_output t s) @ ys"
proof (induction w NB MB epsilon max_iter save_output t s rule: jacobi_loop.induct)
  case (1 w NB MB epsilon max_iter save_output t s)
  let ?s' = "iteration w NB MB epsilon save_output t s"
  show ?case
  proof (cases "iter s + 1 < max_iter")
    case True
    then have "iter ?s' < max_iter"
      by (simp add: iter_iteration)
    from "1.IH" [OF refl this] obtain ys where
      ys: "events (jacobi_loop w NB MB epsilon max_iter save_output t ?s') =
             events (iteration w NB MB epsilon save_output t ?s') @ ys"
      by blast
    obtain zs x where
      "events (iteration w NB MB epsilon save_output t ?s') =
         events ?s' @ (if rank t = 0
                       then [Printf (iter ?s') (map_option sqrt (diff_norm ?s')) epsilon] else [])
           @ zs @ [Allreduce x]"
      using iteration_events by blast
    with ys True show ?thesis
      by (subst jacobi_loop_unfold) simp
  next
    case False
    then show ?thesis
      by (subst jacobi_loop_unfold) simp
  qed
qed

lemma jacobi_loop_allreduce:
  "\<exists>x. Allreduce x \<in> set (events (jacobi_loop w NB MB epsilon max_iter save_output t s))"
proof -
  obtain ys where
    "events (jacobi_loop w NB MB epsilon max_iter save_output t s) =
       events (iteration w NB MB epsilon save_output t s) @ ys"
    using jacobi_loop_events by blast
  moreover obtain zs x where
    "events (iteration w NB MB epsilon save_output t s) =
       events s @ (if rank t = 0
                   then [Printf (iter s) (map_option sqrt (diff_norm s)) epsilon] else [])
         @ zs @ [Allreduce x]"
    using iteration_events by blast
  ultimately have "Allreduce x \<in> set (events (jacobi_loop w NB MB epsilon max_iter save_output t s))"
    by simp
  then show ?thesis by blast
qed


subsection \<open>The function as a whole\<close>

lemma jacobi_cpu_returns:
  assumes "0 < P"
  shows "jacobi_cpu w matrix NB MB P Q epsilon max_iter save_output =
    Inr \<lparr> returned = iter (jacobi_loop w NB MB epsilon max_iter save_output (jacobi_topology w P)
                             (jacobi_init w matrix NB MB P)),
          at_exit = jacobi_loop w NB MB epsilon max_iter save_output (jacobi_topology w P)
                      (jacobi_init w matrix NB MB P),
          freed = (if Matrix \<noteq> om (jacobi_loop w NB MB epsilon max_iter save_output
                                      (jacobi_topology w P) (jacobi_init w matrix NB MB P))
                   then om (jacobi_loop w NB MB epsilon max_iter save_output
                              (jacobi_topology w P) (jacobi_init w matrix NB MB P))
                   else nm (jacobi_loop w NB MB epsilon max_iter save_output
                              (jacobi_topology w P) (jacobi_init w matrix NB MB P))),
          trace = events (jacobi_loop w NB MB epsilon max_iter save_output (jacobi_topology w P)
                            (jacobi_init w matrix NB MB P))
                  @ [Print_timings,
                     Free_grid (if Matrix \<noteq> om (jacobi_loop w NB MB epsilon max_iter save_output
                                      (jacobi_topology w P) (jacobi_init w matrix NB MB P))
                   then om (jacobi_loop w NB MB epsilon max_iter save_output
                              (jacobi_topology w P) (jacobi_init w matrix NB MB P))
                   else nm (jacobi_loop w NB MB epsilon max_iter save_output
                              (jacobi_topology w P) (jacobi_init w matrix NB MB P))),
                     Free_scratch, Free_scratch, Free_scratch, Free_scratch,
                     Comm_free, Comm_free] \<rparr>"
  using assms by (simp add: jacobi_cpu_def Let_def)

lemma jacobi_init_fields:
  "iter (jacobi_init w matrix NB MB P) = 0"
  "om (jacobi_init w matrix NB MB P) = Matrix"
  "nm (jacobi_init w matrix NB MB P) = Calloc"
  "diff_norm (jacobi_init w matrix NB MB P) = None"
  "heap (jacobi_init w matrix NB MB P) Matrix = matrix"
  "heap (jacobi_init w matrix NB MB P) Calloc = replicate ((NB + 2) * (MB + 2)) 0"
  "events (jacobi_init w matrix NB MB P) =
     [Comm_split (comm_rank w mod P), Comm_split (comm_rank w div P)]"
  by (simp_all add: jacobi_init_def)

lemma jacobi_loop_trace:
  "\<exists>ys x. events (jacobi_loop w NB MB epsilon max_iter save_output t s) =
     events s
     @ (if rank t = 0 then [Printf (iter s) (map_option sqrt (diff_norm s)) epsilon] else [])
     @ ys \<and> Allreduce x \<in> set ys"
proof -
  obtain ys where ys:
    "events (jacobi_loop w NB MB epsilon max_iter save_output t s) =
       events (iteration w NB MB epsilon save_output t s) @ ys"
    using jacobi_loop_events by blast
  obtain zs x where zs:
    "events (iteration w NB MB epsilon save_output t s) =
       events s @ (if rank t = 0
                   then [Printf (iter s) (map_option sqrt (diff_norm s)) epsilon] else [])
         @ zs @ [Allreduce x]"
    using iteration_events by blast
  have "events (jacobi_loop w NB MB epsilon max_iter save_output t s) =
     events s
     @ (if rank t = 0 then [Printf (iter s) (map_option sqrt (diff_norm s)) epsilon] else [])
     @ (zs @ [Allreduce x] @ ys)"
    by (simp add: ys zs)
  moreover have "Allreduce x \<in> set (zs @ [Allreduce x] @ ys)" by simp
  ultimately show ?thesis by blast
qed

section \<open>The claims about \<^verbatim>\<open>jacobi_cpu\<close>\<close>

text \<open>
  C6, as the code has it. For every call with \<open>P \<noteq> 0\<close> the function returns, and the
  count it returns is \<open>max_iter\<close> when \<open>max_iter \<ge> 1\<close> and \<open>1\<close> otherwise (the body of the
  \<^verbatim>\<open>do ... while\<close> runs once before the cap is tested). The count is the same for every
  \<open>epsilon\<close>, every world and every grid: the threshold never ends the loop.
\<close>

theorem jacobi_cpu_iteration_count:
  assumes "0 < P"
  shows "\<exists>r. jacobi_cpu w matrix NB MB P Q epsilon max_iter save_output = Inr r
           \<and> returned r = iter (at_exit r)
           \<and> returned r = (if 1 \<le> max_iter then max_iter else 1)"
  by (auto simp add: jacobi_cpu_returns [OF assms] jacobi_loop_iter jacobi_init_fields)

theorem jacobi_cpu_iteration_count_witness:
  "0 < (1::nat)
   \<and> (\<exists>r. jacobi_cpu lone_world (uniform_grid 1 1 0 10) 1 1 1 1 0 3 False = Inr r
           \<and> returned r = iter (at_exit r)
           \<and> returned r = 3)"
  using jacobi_cpu_iteration_count [of 1 lone_world "uniform_grid 1 1 0 10" 1 1 1 0 3 False]
  by simp

text \<open>
  C6 as stated fails for \<open>max_iter = 0\<close>: the call runs one iteration and returns \<open>1\<close>,
  not the cap.
\<close>

theorem jacobi_cpu_zero_cap_counterexample:
  "\<not> isl (jacobi_cpu lone_world (uniform_grid 1 1 0 10) 1 1 1 1 0 0 False)
   \<and> returned (projr (jacobi_cpu lone_world (uniform_grid 1 1 0 10) 1 1 1 1 0 0 False)) = 1
   \<and> returned (projr (jacobi_cpu lone_world (uniform_grid 1 1 0 10) 1 1 1 1 0 0 False)) \<noteq> 0"
  by (simp add: jacobi_cpu_returns jacobi_loop_iter jacobi_init_fields)

text \<open>
  C5, as the code has it. The function never compares \<open>size\<close> with \<open>P\<close>. When \<open>size\<close> is
  not a multiple of \<open>P\<close> (and \<open>P \<noteq> 0\<close>) it raises no error: it splits the communicator
  twice, runs its iterations, each with the collective reduction, and returns the usual
  count.
\<close>

theorem jacobi_cpu_no_topology_check:
  assumes "0 < P" and "comm_size w mod P \<noteq> 0"
  shows "\<exists>r ys x. jacobi_cpu w matrix NB MB P Q epsilon max_iter save_output = Inr r
           \<and> returned r = (if 1 \<le> max_iter then max_iter else 1)
           \<and> trace r = Comm_split (comm_rank w mod P) # Comm_split (comm_rank w div P) # ys
           \<and> Allreduce x \<in> set ys"
proof -
  let ?init = "jacobi_init w matrix NB MB P"
  let ?t = "jacobi_topology w P"
  let ?fin = "jacobi_loop w NB MB epsilon max_iter save_output ?t ?init"
  obtain ys x where ys:
    "events ?fin = events ?init
       @ (if rank ?t = 0 then [Printf (iter ?init) (map_option sqrt (diff_norm ?init)) epsilon] else [])
       @ ys" and x: "Allreduce x \<in> set ys"
    using jacobi_loop_trace by blast
  let ?f = "if Matrix \<noteq> om ?fin then om ?fin else nm ?fin"
  let ?zs = "(if rank ?t = 0 then [Printf (iter ?init) (map_option sqrt (diff_norm ?init)) epsilon] else [])
       @ ys @ [Print_timings, Free_grid ?f, Free_scratch, Free_scratch, Free_scratch,
               Free_scratch, Comm_free, Comm_free]"
  have "trace (projr (jacobi_cpu w matrix NB MB P Q epsilon max_iter save_output)) =
          Comm_split (comm_rank w mod P) # Comm_split (comm_rank w div P) # ?zs"
    by (simp add: jacobi_cpu_returns [OF assms(1)] ys jacobi_init_fields)
  moreover have "Allreduce x \<in> set ?zs" using x by simp
  moreover have "returned (projr (jacobi_cpu w matrix NB MB P Q epsilon max_iter save_output)) =
          (if 1 \<le> max_iter then max_iter else 1)"
    by (auto simp add: jacobi_cpu_returns [OF assms(1)] jacobi_loop_iter jacobi_init_fields)
  moreover have "jacobi_cpu w matrix NB MB P Q epsilon max_iter save_output =
          Inr (projr (jacobi_cpu w matrix NB MB P Q epsilon max_iter save_output))"
    by (simp add: jacobi_cpu_returns [OF assms(1)])
  ultimately show ?thesis by blast
qed

theorem jacobi_cpu_no_topology_check_witness:
  "0 < (2::nat) \<and> comm_size (lone_world\<lparr>comm_size := 3\<rparr>) mod 2 \<noteq> 0
   \<and> (\<exists>r ys x. jacobi_cpu (lone_world\<lparr>comm_size := 3\<rparr>) (uniform_grid 1 1 0 10) 1 1 2 2 0 1 False
                  = Inr r
           \<and> returned r = 1
           \<and> trace r = Comm_split 0 # Comm_split 0 # ys
           \<and> Allreduce x \<in> set ys)"
  using jacobi_cpu_no_topology_check
    [of 2 "lone_world\<lparr>comm_size := 3\<rparr>" "uniform_grid 1 1 0 10" 1 1 2 0 1 False]
  by (simp add: lone_world_def)

text \<open>
  C5 as stated fails: with three processes and \<open>P = 2\<close>, rank 0 gets no error; it posts a
  receive from its southern and from its eastern neighbour in the first iteration.
\<close>

theorem jacobi_cpu_ill_formed_topology_counterexample:
  "(3::nat) mod 2 \<noteq> 0
   \<and> \<not> isl (jacobi_cpu (lone_world\<lparr>comm_size := 3\<rparr>) (uniform_grid 1 1 0 10) 1 1 2 2 0 1 False)
   \<and> take 5 (trace (projr
        (jacobi_cpu (lone_world\<lparr>comm_size := 3\<rparr>) (uniform_grid 1 1 0 10) 1 1 2 2 0 1 False))) =
       [Comm_split 0, Comm_split 0, Printf 0 None 0, Irecv South, Irecv East]"
proof -
  have three: "[0..<3] = [0, 1, 2::nat]"
    by code_simp
  have t: "jacobi_topology (lone_world\<lparr>comm_size := 3\<rparr>) 2 =
             \<lparr> rank = 0, ns_rank = 0, ns_size = 2, ew_rank = 0, ew_size = 2 \<rparr>"
    by (simp add: jacobi_topology_def split_rank_def split_size_def lone_world_def three)
  have r: "comm_rank (lone_world\<lparr>comm_size := 3\<rparr>) = 0"
    by (simp add: lone_world_def)
  show ?thesis
    by (simp add: jacobi_cpu_returns jacobi_loop_last jacobi_init_fields t r iteration_def
          relax_and_swap_fields halo_exchange_def diagnostics_def Let_def case_prod_beta)
qed

text \<open>
  C10. \<^verbatim>\<open>diff_norm\<close> has no value when the loop is entered. On rank 0 the first thing
  the loop does is the diagnostic \<^verbatim>\<open>printf\<close> of iteration 0, whose second argument is
  \<^verbatim>\<open>sqrt(diff_norm)\<close> of that indeterminate value (\<open>None\<close> in the trace). The variable is
  still unassigned after the halo exchange and gets its first value from \<^verbatim>\<open>SOR1\<close>,
  later in the same iteration.
\<close>

theorem jacobi_cpu_prints_unassigned_diff_norm:
  assumes "0 < P" and "comm_rank w = 0"
  shows "diff_norm (jacobi_init w matrix NB MB P) = None
     \<and> diff_norm (halo_exchange w NB MB (jacobi_topology w P)
                    (diagnostics epsilon save_output (jacobi_topology w P)
                       (jacobi_init w matrix NB MB P))) = None
     \<and> diff_norm (iteration w NB MB epsilon save_output (jacobi_topology w P)
                    (jacobi_init w matrix NB MB P)) \<noteq> None
     \<and> (\<exists>r ys. jacobi_cpu w matrix NB MB P Q epsilon max_iter save_output = Inr r
           \<and> trace r = [Comm_split (comm_rank w mod P), Comm_split (comm_rank w div P),
                         Printf 0 None epsilon] @ ys)"
proof -
  let ?init = "jacobi_init w matrix NB MB P"
  let ?t = "jacobi_topology w P"
  let ?fin = "jacobi_loop w NB MB epsilon max_iter save_output ?t ?init"
  have rank0: "rank ?t = 0" using assms(2) by (simp add: jacobi_topology_def)
  obtain ys x where ys:
    "events ?fin = events ?init
       @ (if rank ?t = 0 then [Printf (iter ?init) (map_option sqrt (diff_norm ?init)) epsilon] else [])
       @ ys"
    using jacobi_loop_trace by blast
  let ?f = "if Matrix \<noteq> om ?fin then om ?fin else nm ?fin"
  have "trace (projr (jacobi_cpu w matrix NB MB P Q epsilon max_iter save_output)) =
          [Comm_split (comm_rank w mod P), Comm_split (comm_rank w div P), Printf 0 None epsilon]
          @ (ys @ [Print_timings, Free_grid ?f, Free_scratch, Free_scratch, Free_scratch,
                   Free_scratch, Comm_free, Comm_free])"
    by (simp add: jacobi_cpu_returns [OF assms(1)] ys rank0 jacobi_init_fields)
  moreover have "jacobi_cpu w matrix NB MB P Q epsilon max_iter save_output =
          Inr (projr (jacobi_cpu w matrix NB MB P Q epsilon max_iter save_output))"
    by (simp add: jacobi_cpu_returns [OF assms(1)])
  ultimately have "\<exists>r ys. jacobi_cpu w matrix NB MB P Q epsilon max_iter save_output = Inr r
           \<and> trace r = [Comm_split (comm_rank w mod P), Comm_split (comm_rank w div P),
                         Printf 0 None epsilon] @ ys"
    by blast
  moreover have "diff_norm (iteration w NB MB epsilon save_output ?t ?init) \<noteq> None"
    by (simp add: iteration_def relax_and_swap_fields)
  ultimately show ?thesis
    by (simp add: halo_exchange_fields diagnostics_fields jacobi_init_fields)
qed

theorem jacobi_cpu_prints_unassigned_diff_norm_witness:
  "0 < (1::nat) \<and> comm_rank lone_world = 0
   \<and> diff_norm (jacobi_init lone_world (uniform_grid 1 1 0 10) 1 1 1) = None
   \<and> (\<exists>r ys. jacobi_cpu lone_world (uniform_grid 1 1 0 10) 1 1 1 1 0 2 False = Inr r
           \<and> trace r = [Comm_split 0, Comm_split 0, Printf 0 None 0] @ ys)"
  using jacobi_cpu_prints_unassigned_diff_norm
    [of 1 lone_world "uniform_grid 1 1 0 10" 1 1 0 False 1 2]
  by (simp add: lone_world_def)

subsection \<open>The first iteration\<close>

text \<open>
  In the first iteration \<^verbatim>\<open>om\<close> is the caller's array and \<^verbatim>\<open>nm\<close> the zeroed one.
  With a cap of at most one the loop body runs exactly once.
\<close>

lemma first_exchange_fields:
  "om (halo_exchange w NB MB t (diagnostics epsilon save_output t (jacobi_init w matrix NB MB P)))
     = Matrix"
  "nm (halo_exchange w NB MB t (diagnostics epsilon save_output t (jacobi_init w matrix NB MB P)))
     = Calloc"
  "heap (halo_exchange w NB MB t (diagnostics epsilon save_output t (jacobi_init w matrix NB MB P)))
     Calloc = replicate ((NB + 2) * (MB + 2)) 0"
  by (simp_all add: halo_exchange_fields halo_exchange_other diagnostics_fields jacobi_init_fields)

lemma first_iteration_heap:
  "heap (iteration w NB MB epsilon save_output t (jacobi_init w matrix NB MB P)) =
     (heap (halo_exchange w NB MB t (diagnostics epsilon save_output t
              (jacobi_init w matrix NB MB P))))
     (Calloc := fst (grid_pass
        (heap (halo_exchange w NB MB t (diagnostics epsilon save_output t
                 (jacobi_init w matrix NB MB P))) Matrix)
        NB MB (replicate ((NB + 2) * (MB + 2)) 0, 0)))"
  by (simp add: iteration_heap jacobi_init_fields SOR1_fst first_exchange_fields)

lemma first_pass_cell:
  assumes "i < NB" "j < MB"
  shows "fst (grid_pass A NB MB (replicate ((NB + 2) * (MB + 2)) 0, 0)) ! pos_of NB i j =
     SOR1_update (SOR1_W NB) (A ! pos_of NB i j)
       (if i = 0 then 0
        else fst (grid_pass A NB MB (replicate ((NB + 2) * (MB + 2)) 0, 0)) ! (pos_of NB i j - 1))
       (A ! (pos_of NB i j + 1))
       (if j = 0 then 0
        else fst (grid_pass A NB MB (replicate ((NB + 2) * (MB + 2)) 0, 0))
               ! (pos_of NB i j - (NB + 2)))
       (A ! (pos_of NB i j + (NB + 2)))"
proof -
  let ?Z = "replicate ((NB + 2) * (MB + 2)) (0::real)"
  have less: "pos_of NB i j < (NB + 2) * (MB + 2)"
    using assms by (intro pos_of_in_range) simp_all
  have len: "pos_of NB i j < length ?Z"
    using less by (simp only: length_replicate)
  have wz: "?Z ! (pos_of NB i j - 1) = 0"
    by (rule nth_replicate) (use less in arith)
  have nz: "?Z ! (pos_of NB i j - (NB + 2)) = 0"
    by (rule nth_replicate) (use less in arith)
  from grid_value [OF assms len, of A 0] show ?thesis
    by (simp only: wz nz)
qed

lemma first_pass_zero_block:
  assumes "\<forall>i<NB. \<forall>j<MB. A ! pos_of NB i j = 0"
  shows "i + 1 < NB \<Longrightarrow> j + 1 < MB \<Longrightarrow>
         fst (grid_pass A NB MB (replicate ((NB + 2) * (MB + 2)) 0, 0)) ! pos_of NB i j = 0"
proof (induction j arbitrary: i rule: less_induct)
  case (less j)
  note outer = less.IH
  from less.prems show ?case
  proof (induction i rule: less_induct)
    case (less i)
    have i: "i < NB" and j: "j < MB" using less.prems by simp_all
    have c: "A ! pos_of NB i j = 0" using assms i j by simp
    have e: "A ! (pos_of NB i j + 1) = 0"
    proof -
      have "pos_of NB i j + 1 = pos_of NB (i + 1) j"
        by (simp add: pos_of_def)
      then show ?thesis using assms less.prems(1) j by simp
    qed
    have s: "A ! (pos_of NB i j + (NB + 2)) = 0"
    proof -
      have "pos_of NB i j + (NB + 2) = pos_of NB i (j + 1)"
        by (simp add: pos_of_def)
      then show ?thesis using assms i less.prems(2) by simp
    qed
    have w: "fst (grid_pass A NB MB (replicate ((NB + 2) * (MB + 2)) 0, 0)) ! (pos_of NB i j - 1) = 0"
      if "0 < i"
    proof -
      have "pos_of NB i j - 1 = pos_of NB (i - 1) j" using that by (rule pos_of_west)
      moreover have "fst (grid_pass A NB MB (replicate ((NB + 2) * (MB + 2)) 0, 0))
                       ! pos_of NB (i - 1) j = 0"
        using that less.prems by (intro less.IH) simp_all
      ultimately show ?thesis by simp
    qed
    have n: "fst (grid_pass A NB MB (replicate ((NB + 2) * (MB + 2)) 0, 0))
               ! (pos_of NB i j - (NB + 2)) = 0"
      if "0 < j"
    proof -
      have "pos_of NB i j - (NB + 2) = pos_of NB i (j - 1)" using that by (rule pos_of_north)
      moreover have "fst (grid_pass A NB MB (replicate ((NB + 2) * (MB + 2)) 0, 0))
                       ! pos_of NB i (j - 1) = 0"
        using that less.prems by (intro outer) simp_all
      ultimately show ?thesis by simp
    qed
    show ?case
      using first_pass_cell [OF i j, of A] c e s w n
      by (cases "i = 0"; cases "j = 0") (simp_all add: SOR1_update_def)
  qed
qed

lemma jacobi_cpu_one_iteration:
  assumes "0 < P" "max_iter \<le> 1"
  shows "jacobi_cpu w matrix NB MB P Q epsilon max_iter save_output =
    Inr \<lparr> returned = 1,
          at_exit = iteration w NB MB epsilon save_output (jacobi_topology w P)
                      (jacobi_init w matrix NB MB P),
          freed = Calloc,
          trace = events (iteration w NB MB epsilon save_output (jacobi_topology w P)
                            (jacobi_init w matrix NB MB P))
                  @ [Print_timings, Free_grid Calloc,
                     Free_scratch, Free_scratch, Free_scratch, Free_scratch,
                     Comm_free, Comm_free] \<rparr>"
proof -
  have "jacobi_loop w NB MB epsilon max_iter save_output (jacobi_topology w P)
          (jacobi_init w matrix NB MB P) =
        iteration w NB MB epsilon save_output (jacobi_topology w P) (jacobi_init w matrix NB MB P)"
    using assms(2) by (intro jacobi_loop_last) (simp add: jacobi_init_fields)
  then show ?thesis
    by (simp add: jacobi_cpu_returns [OF assms(1)] iteration_fields jacobi_init_fields
          iter_iteration)
qed

lemma lone_topology:
  assumes "comm_rank w = 0" "comm_size w = 1"
  shows "jacobi_topology w P = \<lparr> rank = 0, ns_rank = 0, ns_size = 1, ew_rank = 0, ew_size = 1 \<rparr>"
  using assms by (simp add: jacobi_topology_def split_rank_def split_size_def)

text \<open>
  With a single process nothing is received; the exchange changes only the west and
  east ghost columns of \<^verbatim>\<open>om\<close>, which the unpacking loop overwrites.
\<close>

lemma lone_exchange_frame:
  assumes "comm_rank w = 0" "comm_size w = 1"
    and "\<forall>i<MB. p \<noteq> (i + 1) * (NB + 2) \<and> p \<noteq> (i + 1) * (NB + 2) + NB + 1"
  shows "heap (halo_exchange w NB MB (jacobi_topology w P)
           (diagnostics epsilon save_output (jacobi_topology w P) (jacobi_init w matrix NB MB P)))
           Matrix ! p = matrix ! p"
proof -
  have "heap (halo_exchange w NB MB (jacobi_topology w P)
           (diagnostics epsilon save_output (jacobi_topology w P) (jacobi_init w matrix NB MB P)))
           Matrix ! p =
        heap (diagnostics epsilon save_output (jacobi_topology w P) (jacobi_init w matrix NB MB P))
           Matrix ! p"
    using assms(3) by (intro halo_exchange_frame) (simp_all add: lone_topology [OF assms(1,2)])
  then show ?thesis by (simp add: diagnostics_fields jacobi_init_fields)
qed

lemma uniform_grid_nth:
  "p < (NB + 2) * (MB + 2) \<Longrightarrow>
   uniform_grid NB MB a g ! p =
     (if 1 \<le> p mod (NB + 2) \<and> p mod (NB + 2) \<le> NB \<and> 1 \<le> p div (NB + 2) \<and> p div (NB + 2) \<le> MB
      then a else g)"
proof -
  have gen: "p < n \<Longrightarrow> map f [0..<n] ! p = f p" for n and f :: "nat \<Rightarrow> real"
    by simp
  assume "p < (NB + 2) * (MB + 2)"
  then show ?thesis
    unfolding uniform_grid_def by (rule gen)
qed

lemma uniform_grid_interior:
  assumes "i < NB" "j < MB"
  shows "uniform_grid NB MB a g ! pos_of NB i j = a"
proof -
  have p: "pos_of NB i j = 1 + i + (j + 1) * (NB + 2)" by (simp add: pos_of_def)
  have "(1 + i + (j + 1) * (NB + 2)) mod (NB + 2) = (1 + i) mod (NB + 2)"
    by (rule mod_mult_self1)
  then have m: "pos_of NB i j mod (NB + 2) = 1 + i"
    using assms(1) by (simp only: p) simp
  have "(1 + i + (j + 1) * (NB + 2)) div (NB + 2) = (j + 1) + (1 + i) div (NB + 2)"
    by (rule div_mult_self1) simp
  then have d: "pos_of NB i j div (NB + 2) = j + 1"
    using assms(1) by (simp only: p) simp
  have "pos_of NB i j < (NB + 2) * (MB + 2)"
    using assms by (intro pos_of_in_range) simp_all
  then have "uniform_grid NB MB a g ! pos_of NB i j =
     (if 1 \<le> pos_of NB i j mod (NB + 2) \<and> pos_of NB i j mod (NB + 2) \<le> NB \<and>
         1 \<le> pos_of NB i j div (NB + 2) \<and> pos_of NB i j div (NB + 2) \<le> MB
      then a else g)"
    by (rule uniform_grid_nth)
  then show ?thesis
    using assms by (simp only: m d) simp
qed

lemma lone_exchange_interior:
  assumes "i < NB" "j < MB"
  shows "heap (halo_exchange w NB MB t
           (diagnostics epsilon save_output t (jacobi_init w (uniform_grid NB MB a g) NB MB P)))
           Matrix ! pos_of NB i j = a"
  using assms
  by (simp add: halo_exchange_interior diagnostics_fields jacobi_init_fields uniform_grid_interior)

lemma SOR1_W_pos: "0 < SOR1_W nb"
  by (simp add: SOR1_W_def add_pos_nonneg)

lemma pos_of_east: "pos_of nb i j + 1 = pos_of nb (i + 1) j"
  by (simp add: pos_of_def)

text \<open>What a call with a cap of at most one leaves behind.\<close>

lemma one_iteration_result:
  assumes "0 < P" "max_iter \<le> 1"
  shows "\<not> isl (jacobi_cpu w matrix NB MB P Q epsilon max_iter save_output)"
    and "returned (projr (jacobi_cpu w matrix NB MB P Q epsilon max_iter save_output)) = 1"
    and "freed (projr (jacobi_cpu w matrix NB MB P Q epsilon max_iter save_output)) = Calloc"
    and "om (at_exit (projr (jacobi_cpu w matrix NB MB P Q epsilon max_iter save_output))) = Calloc"
    and "final_iterate (projr (jacobi_cpu w matrix NB MB P Q epsilon max_iter save_output)) =
           fst (grid_pass
             (heap (halo_exchange w NB MB (jacobi_topology w P)
                (diagnostics epsilon save_output (jacobi_topology w P)
                   (jacobi_init w matrix NB MB P))) Matrix)
             NB MB (replicate ((NB + 2) * (MB + 2)) 0, 0))"
    and "surviving (projr (jacobi_cpu w matrix NB MB P Q epsilon max_iter save_output)) =
           heap (halo_exchange w NB MB (jacobi_topology w P)
                (diagnostics epsilon save_output (jacobi_topology w P)
                   (jacobi_init w matrix NB MB P))) Matrix"
  by (simp_all add: jacobi_cpu_one_iteration [OF assms] final_iterate_def surviving_def
        iteration_fields jacobi_init_fields first_iteration_heap)

text \<open>
  The scenario of the specification: a single process, a 4 by 4 interior of zeros inside
  a border of tens, one iteration. Whatever the receive arrays hold, the nine cells that
  touch neither the east nor the south border stay zero, and cell \<open>(0, 3)\<close> sees only the
  ten below it.
\<close>

lemma scenario_cells:
  assumes "comm_rank w = 0" "comm_size w = 1"
  shows "i + 1 < 4 \<Longrightarrow> j + 1 < 4 \<Longrightarrow>
         final_iterate (projr (jacobi_cpu w (uniform_grid 4 4 0 10) 4 4 1 1 epsilon 1 save_output))
           ! pos_of 4 i j = 0"
    and "final_iterate (projr (jacobi_cpu w (uniform_grid 4 4 0 10) 4 4 1 1 epsilon 1 save_output))
           ! pos_of 4 0 3 = SOR1_W 4 / 4 * 10"
proof -
  define A where "A = heap (halo_exchange w 4 4 (jacobi_topology w 1)
      (diagnostics epsilon save_output (jacobi_topology w 1)
         (jacobi_init w (uniform_grid 4 4 0 10) 4 4 1))) Matrix"
  define G where "G = fst (grid_pass A 4 4 (replicate ((4 + 2) * (4 + 2)) 0, 0))"
  have fin: "final_iterate (projr (jacobi_cpu w (uniform_grid 4 4 0 10) 4 4 1 1 epsilon 1
                                     save_output)) = G"
    unfolding G_def A_def by (rule one_iteration_result) simp_all
  have A0: "\<forall>i<4. \<forall>j<4. A ! pos_of 4 i j = 0"
    unfolding A_def by (simp add: lone_exchange_interior)
  have zero: "G ! pos_of 4 i j = 0" if "i + 1 < 4" "j + 1 < 4" for i j
    unfolding G_def using A0 that by (rule first_pass_zero_block)
  show "i + 1 < 4 \<Longrightarrow> j + 1 < 4 \<Longrightarrow>
         final_iterate (projr (jacobi_cpu w (uniform_grid 4 4 0 10) 4 4 1 1 epsilon 1 save_output))
           ! pos_of 4 i j = 0"
    by (simp only: fin zero)
  have frame: "\<forall>i<4. pos_of 4 0 3 + (4 + 2) \<noteq> (i + 1) * (4 + 2)
                   \<and> pos_of 4 0 3 + (4 + 2) \<noteq> (i + 1) * (4 + 2) + 4 + 1"
    by (simp add: pos_of_def)
  have "A ! (pos_of 4 0 3 + (4 + 2)) = uniform_grid 4 4 0 10 ! (pos_of 4 0 3 + (4 + 2))"
    unfolding A_def using assms frame by (rule lone_exchange_frame)
  also have "\<dots> = 10"
    by (simp add: uniform_grid_nth pos_of_def)
  finally have south: "A ! (pos_of 4 0 3 + (4 + 2)) = 10" .
  have centre: "A ! pos_of 4 0 3 = 0" using A0 by simp
  have east: "A ! (pos_of 4 0 3 + 1) = 0"
    unfolding pos_of_east using A0 by simp
  have "pos_of 4 0 3 - (4 + 2) = pos_of 4 0 (3 - 1)"
    by (rule pos_of_north) simp
  then have north: "G ! (pos_of 4 0 3 - (4 + 2)) = 0"
    using zero [of 0 2] by simp
  have "G ! pos_of 4 0 3 =
     SOR1_update (SOR1_W 4) (A ! pos_of 4 0 3) 0 (A ! (pos_of 4 0 3 + 1))
       (G ! (pos_of 4 0 3 - (4 + 2))) (A ! (pos_of 4 0 3 + (4 + 2)))"
    using first_pass_cell [of 0 4 3 4 A] by (simp add: G_def)
  then have "G ! pos_of 4 0 3 = SOR1_W 4 / 4 * 10"
    by (simp only: centre east north south) (simp add: SOR1_update_def)
  then show "final_iterate (projr (jacobi_cpu w (uniform_grid 4 4 0 10) 4 4 1 1 epsilon 1
                                     save_output)) ! pos_of 4 0 3 = SOR1_W 4 / 4 * 10"
    by (simp only: fin)
qed

text \<open>
  C3, as the code has it. In the run with \<open>NB = MB = 4\<close>, a single process, interior 0,
  border 10 and \<open>max_iter = 1\<close>, the function returns 1 and the final iterate is not
  uniform: each of the nine interior cells \<open>(i, j)\<close> with \<open>i < 3\<close> and \<open>j < 3\<close> is 0, and
  cell \<open>(0, 3)\<close> is \<open>(1 - W) * 0 + (W / 4) * (0 + 0 + 0 + 10)\<close> with \<open>W = 2 / (1 + pi / 4)\<close>.
  This holds for every content of the scratch arrays; nothing is said about the cells of
  the last column, which read the east ghost column after the unpacking loop.
\<close>

theorem jacobi_cpu_scenario_first_pass:
  assumes "comm_rank w = 0" and "comm_size w = 1"
  shows "\<exists>r. jacobi_cpu w (uniform_grid 4 4 0 10) 4 4 1 1 epsilon 1 save_output = Inr r
      \<and> returned r = 1
      \<and> (\<forall>i<3. \<forall>j<3. final_iterate r ! pos_of 4 i j = 0)
      \<and> final_iterate r ! pos_of 4 0 3 = (1 - SOR1_W 4) * 0 + SOR1_W 4 / 4 * (0 + 0 + 0 + 10)
      \<and> SOR1_W 4 = 2 / (1 + pi / 4)"
proof -
  let ?x = "jacobi_cpu w (uniform_grid 4 4 0 10) 4 4 1 1 epsilon 1 save_output"
  have "\<not> isl ?x" by (rule one_iteration_result) simp_all
  then have "?x = Inr (projr ?x)" by simp
  moreover have "returned (projr ?x) = 1" by (rule one_iteration_result) simp_all
  moreover have "\<forall>i<3. \<forall>j<3. final_iterate (projr ?x) ! pos_of 4 i j = 0"
    using scenario_cells(1) [OF assms] by simp
  moreover have "final_iterate (projr ?x) ! pos_of 4 0 3 =
      (1 - SOR1_W 4) * 0 + SOR1_W 4 / 4 * (0 + 0 + 0 + 10)"
    using scenario_cells(2) [OF assms, of epsilon save_output] by simp
  moreover have "SOR1_W 4 = 2 / (1 + pi / 4)" by (simp add: SOR1_W_def)
  ultimately show ?thesis by blast
qed

theorem jacobi_cpu_scenario_first_pass_witness:
  "comm_rank lone_world = 0 \<and> comm_size lone_world = 1
   \<and> (\<exists>r. jacobi_cpu lone_world (uniform_grid 4 4 0 10) 4 4 1 1 0 1 False = Inr r
      \<and> returned r = 1
      \<and> (\<forall>i<3. \<forall>j<3. final_iterate r ! pos_of 4 i j = 0)
      \<and> final_iterate r ! pos_of 4 0 3 = (1 - SOR1_W 4) * 0 + SOR1_W 4 / 4 * (0 + 0 + 0 + 10)
      \<and> SOR1_W 4 = 2 / (1 + pi / 4))"
proof -
  have "comm_rank lone_world = 0" and "comm_size lone_world = 1"
    by (simp_all add: lone_world_def)
  with jacobi_cpu_scenario_first_pass [of lone_world 0 False] show ?thesis
    by blast
qed

text \<open>
  C3 as stated fails in that very run: the new value of cell \<open>(0, 0)\<close> is 0, which is not
  \<open>(1 - W) * 0 + (W / 4) * (10 + 10 + 10 + 10)\<close>.
\<close>

theorem jacobi_cpu_scenario_counterexample:
  "final_iterate (projr (jacobi_cpu lone_world (uniform_grid 4 4 0 10) 4 4 1 1 0 1 False))
     ! pos_of 4 0 0 = 0
   \<and> final_iterate (projr (jacobi_cpu lone_world (uniform_grid 4 4 0 10) 4 4 1 1 0 1 False))
     ! pos_of 4 0 0 \<noteq> (1 - SOR1_W 4) * 0 + SOR1_W 4 / 4 * (10 + 10 + 10 + 10)"
proof -
  have "comm_rank lone_world = 0" and "comm_size lone_world = 1"
    by (simp_all add: lone_world_def)
  then have "final_iterate (projr (jacobi_cpu lone_world (uniform_grid 4 4 0 10) 4 4 1 1 0 1 False))
     ! pos_of 4 0 0 = 0"
    by (rule scenario_cells(1)) simp_all
  then show ?thesis
    using SOR1_W_pos [of 4] by simp
qed

text \<open>
  C4 at \<open>max_iter = 1\<close>, on a 2 by 1 interior of zeros inside a border of tens. After the
  loop \<^verbatim>\<open>om\<close> is the \<^verbatim>\<open>calloc\<close>ed array, so \<^verbatim>\<open>matrix != om\<close> holds and
  \<^verbatim>\<open>free(om)\<close> releases the array that holds the final iterate. The array that survives
  is the caller's; its cell \<open>(0, 0)\<close> still holds the input value 0, while the final
  iterate has \<open>(W / 4) * 10\<close> there.
\<close>

theorem jacobi_cpu_odd_cap_frees_final_iterate:
  "freed (projr (jacobi_cpu lone_world (uniform_grid 2 1 0 10) 2 1 1 1 0 1 False)) = Calloc
   \<and> om (at_exit (projr (jacobi_cpu lone_world (uniform_grid 2 1 0 10) 2 1 1 1 0 1 False))) = Calloc
   \<and> final_iterate (projr (jacobi_cpu lone_world (uniform_grid 2 1 0 10) 2 1 1 1 0 1 False))
       ! pos_of 2 0 0 = SOR1_W 2 / 4 * 10
   \<and> surviving (projr (jacobi_cpu lone_world (uniform_grid 2 1 0 10) 2 1 1 1 0 1 False))
       ! pos_of 2 0 0 = 0
   \<and> surviving (projr (jacobi_cpu lone_world (uniform_grid 2 1 0 10) 2 1 1 1 0 1 False))
       ! pos_of 2 0 0
     \<noteq> final_iterate (projr (jacobi_cpu lone_world (uniform_grid 2 1 0 10) 2 1 1 1 0 1 False))
       ! pos_of 2 0 0"
proof -
  let ?x = "jacobi_cpu lone_world (uniform_grid 2 1 0 10) 2 1 1 1 0 1 False"
  define A where "A = heap (halo_exchange lone_world 2 1 (jacobi_topology lone_world 1)
      (diagnostics 0 False (jacobi_topology lone_world 1)
         (jacobi_init lone_world (uniform_grid 2 1 0 10) 2 1 1))) Matrix"
  define G where "G = fst (grid_pass A 2 1 (replicate ((2 + 2) * (1 + 2)) 0, 0))"
  have lone: "comm_rank lone_world = 0" "comm_size lone_world = 1"
    by (simp_all add: lone_world_def)
  have fin: "final_iterate (projr ?x) = G"
    unfolding G_def A_def by (rule one_iteration_result) simp_all
  have sur: "surviving (projr ?x) = A"
    unfolding A_def by (rule one_iteration_result) simp_all
  have fr: "freed (projr ?x) = Calloc" by (rule one_iteration_result) simp_all
  have omx: "om (at_exit (projr ?x)) = Calloc" by (rule one_iteration_result) simp_all
  have A0: "\<forall>i<2. \<forall>j<1. A ! pos_of 2 i j = 0"
    unfolding A_def by (simp add: lone_exchange_interior)
  have frame: "\<forall>i<1. pos_of 2 0 0 + (2 + 2) \<noteq> (i + 1) * (2 + 2)
                   \<and> pos_of 2 0 0 + (2 + 2) \<noteq> (i + 1) * (2 + 2) + 2 + 1"
    by (simp add: pos_of_def)
  have "A ! (pos_of 2 0 0 + (2 + 2)) = uniform_grid 2 1 0 10 ! (pos_of 2 0 0 + (2 + 2))"
    unfolding A_def using lone frame by (rule lone_exchange_frame)
  also have "\<dots> = 10"
    by (simp add: uniform_grid_nth pos_of_def)
  finally have south: "A ! (pos_of 2 0 0 + (2 + 2)) = 10" .
  have centre: "A ! pos_of 2 0 0 = 0" using A0 by simp
  have east: "A ! (pos_of 2 0 0 + 1) = 0"
    unfolding pos_of_east using A0 by simp
  have "G ! pos_of 2 0 0 =
     SOR1_update (SOR1_W 2) (A ! pos_of 2 0 0) 0 (A ! (pos_of 2 0 0 + 1)) 0
       (A ! (pos_of 2 0 0 + (2 + 2)))"
    using first_pass_cell [of 0 2 0 1 A] by (simp add: G_def)
  then have cell: "G ! pos_of 2 0 0 = SOR1_W 2 / 4 * 10"
    by (simp only: centre east south) (simp add: SOR1_update_def)
  show ?thesis
    using SOR1_W_pos [of 2] by (simp only: fin sur fr omx cell centre) simp
qed

text \<open>
  C9. The halo exchange never writes \<^verbatim>\<open>nm\<close>, and in \<^verbatim>\<open>om\<close> it writes no interior
  cell: whatever it stores goes to ghost cells of \<^verbatim>\<open>om\<close>. In the first iteration
  \<^verbatim>\<open>nm\<close> is therefore still the zeroed array when \<^verbatim>\<open>SOR1\<close> runs on it: the west
  ghost cell read for column 0 and the north ghost cell read for row 0 are 0, whatever
  the caller has put on the border of \<^verbatim>\<open>matrix\<close>, and the new value of an interior cell
  is the update of these zeros, the new values to the west and north, and the values of
  \<^verbatim>\<open>om\<close> to the east and south.
\<close>

theorem halo_exchange_leaves_nm:
  assumes "nm s \<noteq> om s" and "i < NB" and "j < MB"
  shows "heap (halo_exchange w NB MB t s) (nm s) = heap s (nm s)
     \<and> heap (halo_exchange w NB MB t s) (om s) ! pos_of NB i j = heap s (om s) ! pos_of NB i j
     \<and> nm (halo_exchange w NB MB t (diagnostics epsilon save_output t
              (jacobi_init w matrix NB MB P))) = Calloc
     \<and> heap (halo_exchange w NB MB t (diagnostics epsilon save_output t
              (jacobi_init w matrix NB MB P))) Calloc = replicate ((NB + 2) * (MB + 2)) 0
     \<and> heap (halo_exchange w NB MB t (diagnostics epsilon save_output t
              (jacobi_init w matrix NB MB P))) Calloc ! (pos_of NB 0 j - 1) = 0
     \<and> heap (halo_exchange w NB MB t (diagnostics epsilon save_output t
              (jacobi_init w matrix NB MB P))) Calloc ! (pos_of NB i 0 - (NB + 2)) = 0
     \<and> heap (iteration w NB MB epsilon save_output t (jacobi_init w matrix NB MB P)) Calloc
         ! pos_of NB i j =
       SOR1_update (SOR1_W NB)
         (heap (halo_exchange w NB MB t (diagnostics epsilon save_output t
                  (jacobi_init w matrix NB MB P))) Matrix ! pos_of NB i j)
         (if i = 0 then 0
          else heap (iteration w NB MB epsilon save_output t (jacobi_init w matrix NB MB P)) Calloc
                 ! (pos_of NB i j - 1))
         (heap (halo_exchange w NB MB t (diagnostics epsilon save_output t
                  (jacobi_init w matrix NB MB P))) Matrix ! (pos_of NB i j + 1))
         (if j = 0 then 0
          else heap (iteration w NB MB epsilon save_output t (jacobi_init w matrix NB MB P)) Calloc
                 ! (pos_of NB i j - (NB + 2)))
         (heap (halo_exchange w NB MB t (diagnostics epsilon save_output t
                  (jacobi_init w matrix NB MB P))) Matrix ! (pos_of NB i j + (NB + 2)))"
proof -
  let ?Z = "replicate ((NB + 2) * (MB + 2)) (0::real)"
  have j0: "pos_of NB 0 j < (NB + 2) * (MB + 2)"
    using pos_of_bound [of 0 NB j MB] assms(2,3) by simp
  have i0: "pos_of NB i 0 < (NB + 2) * (MB + 2)"
    using pos_of_bound [of i NB 0 MB] assms(2,3) by simp
  have wz: "?Z ! (pos_of NB 0 j - 1) = 0"
    by (rule nth_replicate) (use j0 in arith)
  have nz: "?Z ! (pos_of NB i 0 - (NB + 2)) = 0"
    by (rule nth_replicate) (use i0 in arith)
  have "heap (halo_exchange w NB MB t s) (nm s) = heap s (nm s)"
    using assms(1) by (rule halo_exchange_other)
  moreover have "heap (halo_exchange w NB MB t s) (om s) ! pos_of NB i j
                   = heap s (om s) ! pos_of NB i j"
    using assms(2,3) by (rule halo_exchange_interior)
  moreover note first_exchange_fields(2,3) [of w NB MB t epsilon save_output matrix P]
  moreover note first_pass_cell [OF assms(2,3)]
  ultimately show ?thesis
    by (simp only: first_iteration_heap fun_upd_same wz nz simp_thms)
qed

theorem halo_exchange_leaves_nm_witness:
  "nm (jacobi_init lone_world (uniform_grid 1 1 0 10) 1 1 1)
     \<noteq> om (jacobi_init lone_world (uniform_grid 1 1 0 10) 1 1 1)
   \<and> (0::nat) < 1
   \<and> heap (halo_exchange lone_world 1 1 (jacobi_topology lone_world 1)
             (jacobi_init lone_world (uniform_grid 1 1 0 10) 1 1 1)) Calloc
       = replicate ((1 + 2) * (1 + 2)) 0
   \<and> heap (halo_exchange lone_world 1 1 (jacobi_topology lone_world 1)
             (diagnostics 0 False (jacobi_topology lone_world 1)
               (jacobi_init lone_world (uniform_grid 1 1 0 10) 1 1 1))) Calloc ! (pos_of 1 0 0 - 1) = 0
   \<and> heap (halo_exchange lone_world 1 1 (jacobi_topology lone_world 1)
             (diagnostics 0 False (jacobi_topology lone_world 1)
               (jacobi_init lone_world (uniform_grid 1 1 0 10) 1 1 1))) Calloc
         ! (pos_of 1 0 0 - (1 + 2)) = 0"
  using halo_exchange_leaves_nm
    [of "jacobi_init lone_world (uniform_grid 1 1 0 10) 1 1 1" 0 1 0 1 lone_world
        "jacobi_topology lone_world 1" 0 False "uniform_grid 1 1 0 10" 1]
  by (simp add: jacobi_init_fields pos_of_def)

section \<open>Which array survives\<close>

text \<open>
  The two pointers always name the two different arrays, and they trade places once per
  iteration: \<^verbatim>\<open>om\<close> is the caller's array exactly when \<^verbatim>\<open>iter\<close> is even.
\<close>

lemma jacobi_loop_pointers:
  assumes "(om s = Matrix \<and> nm s = Calloc \<and> even (iter s))
         \<or> (om s = Calloc \<and> nm s = Matrix \<and> odd (iter s))"
  shows "(om (jacobi_loop w NB MB epsilon max_iter save_output t s) = Matrix
            \<and> nm (jacobi_loop w NB MB epsilon max_iter save_output t s) = Calloc
            \<and> even (iter (jacobi_loop w NB MB epsilon max_iter save_output t s)))
         \<or> (om (jacobi_loop w NB MB epsilon max_iter save_output t s) = Calloc
            \<and> nm (jacobi_loop w NB MB epsilon max_iter save_output t s) = Matrix
            \<and> odd (iter (jacobi_loop w NB MB epsilon max_iter save_output t s)))"
  using assms
proof (induction w NB MB epsilon max_iter save_output t s rule: jacobi_loop.induct)
  case (1 w NB MB epsilon max_iter save_output t s)
  let ?s' = "iteration w NB MB epsilon save_output t s"
  have step: "(om ?s' = Matrix \<and> nm ?s' = Calloc \<and> even (iter ?s'))
            \<or> (om ?s' = Calloc \<and> nm ?s' = Matrix \<and> odd (iter ?s'))"
    using "1.prems" by (auto simp add: iteration_fields iter_iteration)
  show ?case
  proof (cases "iter s + 1 < max_iter")
    case True
    then have "iter ?s' < max_iter" by (simp add: iter_iteration)
    from "1.IH" [OF refl this step] True show ?thesis
      by (subst (1 2 3 4 5 6) jacobi_loop_unfold) simp
  next
    case False
    with step show ?thesis
      by (subst (1 2 3 4 5 6) jacobi_loop_unfold) simp
  qed
qed

text \<open>
  For every call with \<open>P \<noteq> 0\<close>: the array that is freed is the \<^verbatim>\<open>calloc\<close>ed one and the
  caller's array survives; the final iterate is in the caller's array exactly when the
  number of iterations executed is even, and in the freed array when it is odd.
\<close>

theorem jacobi_cpu_survivor_by_parity:
  assumes "0 < P"
  shows "\<exists>r. jacobi_cpu w matrix NB MB P Q epsilon max_iter save_output = Inr r
      \<and> freed r = Calloc
      \<and> surviving r = heap (at_exit r) Matrix
      \<and> (even (returned r) \<longrightarrow> om (at_exit r) = Matrix \<and> final_iterate r = surviving r)
      \<and> (odd (returned r) \<longrightarrow> om (at_exit r) = freed r
                                \<and> final_iterate r = heap (at_exit r) (freed r))"
proof -
  let ?fin = "jacobi_loop w NB MB epsilon max_iter save_output (jacobi_topology w P)
                (jacobi_init w matrix NB MB P)"
  have "(om ?fin = Matrix \<and> nm ?fin = Calloc \<and> even (iter ?fin))
      \<or> (om ?fin = Calloc \<and> nm ?fin = Matrix \<and> odd (iter ?fin))"
    by (rule jacobi_loop_pointers) (simp add: jacobi_init_fields)
  then show ?thesis
    by (auto simp add: jacobi_cpu_returns [OF assms] final_iterate_def surviving_def)
qed

theorem jacobi_cpu_survivor_by_parity_witness:
  "0 < (1::nat)
   \<and> (\<exists>r. jacobi_cpu lone_world (uniform_grid 1 1 0 10) 1 1 1 1 0 2 False = Inr r
      \<and> freed r = Calloc
      \<and> surviving r = heap (at_exit r) Matrix
      \<and> even (returned r) \<and> om (at_exit r) = Matrix \<and> final_iterate r = surviving r)"
proof -
  have "\<exists>r. jacobi_cpu lone_world (uniform_grid 1 1 0 10) 1 1 1 1 0 2 False = Inr r
           \<and> returned r = iter (at_exit r) \<and> returned r = 2"
    using jacobi_loop_iter [of lone_world 1 1 0 2 False "jacobi_topology lone_world 1"
            "jacobi_init lone_world (uniform_grid 1 1 0 10) 1 1 1"]
    by (simp add: jacobi_cpu_returns jacobi_init_fields)
  then obtain r where r: "jacobi_cpu lone_world (uniform_grid 1 1 0 10) 1 1 1 1 0 2 False = Inr r"
    and two: "returned r = 2"
    by blast
  from jacobi_cpu_survivor_by_parity [of 1 lone_world "uniform_grid 1 1 0 10" 1 1 1 0 2 False]
    r two show ?thesis
    by auto
qed

section \<open>The unpacking loop on a border process\<close>

lemma unpack_Suc:
  "unpack NB (Suc m) rw re b =
     (unpack NB m rw re b)[(m + 1) * (NB + 2) := rw ! m, (m + 1) * (NB + 2) + NB + 1 := re ! m]"
  by (simp add: unpack_def)

lemma unpack_columns:
  assumes "i < MB" "(i + 1) * (NB + 2) + NB + 1 < length b"
  shows "unpack NB MB rw re b ! ((i + 1) * (NB + 2)) = rw ! i
       \<and> unpack NB MB rw re b ! ((i + 1) * (NB + 2) + NB + 1) = re ! i"
  using assms(1)
proof (induction MB)
  case 0
  then show ?case by simp
next
  case (Suc m)
  let ?c = "unpack NB m rw re b"
  have len: "length ?c = length b" by (rule unpack_length)
  show ?case
  proof (cases "i = m")
    case True
    have "(m + 1) * (NB + 2) \<noteq> (m + 1) * (NB + 2) + NB + 1" by simp
    then show ?thesis
      using assms(2) len by (simp add: unpack_Suc True)
  next
    case False
    with Suc.prems have i: "i < m" by simp
    have ww: "(i + 1) * (NB + 2) \<noteq> (m + 1) * (NB + 2)"
    proof
      assume "(i + 1) * (NB + 2) = (m + 1) * (NB + 2)"
      then have "(i + 1) * (NB + 2) + 0 = (m + 1) * (NB + 2) + 0" by simp
      from lin_unique [OF _ _ this] i show False by simp
    qed
    have we: "(i + 1) * (NB + 2) \<noteq> (m + 1) * (NB + 2) + NB + 1"
    proof
      assume "(i + 1) * (NB + 2) = (m + 1) * (NB + 2) + NB + 1"
      then have "(i + 1) * (NB + 2) + 0 = (m + 1) * (NB + 2) + (NB + 1)" by simp
      from lin_unique [OF _ _ this] show False by simp
    qed
    have ew: "(i + 1) * (NB + 2) + NB + 1 \<noteq> (m + 1) * (NB + 2)"
    proof
      assume "(i + 1) * (NB + 2) + NB + 1 = (m + 1) * (NB + 2)"
      then have "(i + 1) * (NB + 2) + (NB + 1) = (m + 1) * (NB + 2) + 0" by simp
      from lin_unique [OF _ _ this] show False by simp
    qed
    have ee: "(i + 1) * (NB + 2) + NB + 1 \<noteq> (m + 1) * (NB + 2) + NB + 1"
    proof
      assume "(i + 1) * (NB + 2) + NB + 1 = (m + 1) * (NB + 2) + NB + 1"
      then have "(i + 1) * (NB + 2) + (NB + 1) = (m + 1) * (NB + 2) + (NB + 1)" by simp
      from lin_unique [OF _ _ this] i show False by simp
    qed
    from Suc.IH [OF i] ww we ew ee show ?thesis
      by (simp only: unpack_Suc nth_list_update_neq not_sym simp_thms)
  qed
qed

text \<open>
  A process without neighbours to the west and east (a single process, for one) posts no
  receive into \<^verbatim>\<open>recv_west\<close> and \<^verbatim>\<open>recv_east\<close>. The unpacking loop copies them all the
  same: after the first exchange the west and east ghost columns of the caller's array
  hold the initial contents of the two \<^verbatim>\<open>malloc\<close>ed arrays, which C leaves
  indeterminate, and no longer what the caller had put there.
\<close>

theorem halo_exchange_overwrites_border_columns:
  assumes "comm_rank w = 0" and "comm_size w = 1"
    and "i < MB" and "(NB + 2) * (MB + 2) \<le> length matrix"
  shows "heap (halo_exchange w NB MB (jacobi_topology w P)
            (diagnostics epsilon save_output (jacobi_topology w P) (jacobi_init w matrix NB MB P)))
            Matrix ! ((i + 1) * (NB + 2)) = malloc_recv_west w i
       \<and> heap (halo_exchange w NB MB (jacobi_topology w P)
            (diagnostics epsilon save_output (jacobi_topology w P) (jacobi_init w matrix NB MB P)))
            Matrix ! ((i + 1) * (NB + 2) + NB + 1) = malloc_recv_east w i"
proof -
  have "(i + 1) * (NB + 2) \<le> MB * (NB + 2)"
    using assms(3) by (intro mult_le_mono1) simp
  then have len: "(i + 1) * (NB + 2) + NB + 1 < length matrix"
    using assms(4) by (simp add: algebra_simps)
  have heap_eq: "heap (halo_exchange w NB MB (jacobi_topology w P)
            (diagnostics epsilon save_output (jacobi_topology w P) (jacobi_init w matrix NB MB P)))
            Matrix =
        unpack NB MB (map (malloc_recv_west w) [0..<MB]) (map (malloc_recv_east w) [0..<MB]) matrix"
    by (simp add: halo_exchange_def Let_def case_prod_beta lone_topology [OF assms(1,2)]
          diagnostics_def jacobi_init_def)
  from unpack_columns [OF assms(3) len,
         of "map (malloc_recv_west w) [0..<MB]" "map (malloc_recv_east w) [0..<MB]"]
  show ?thesis
    using assms(3) by (simp only: heap_eq) simp
qed

theorem halo_exchange_overwrites_border_columns_witness:
  "comm_rank (lone_world\<lparr>malloc_recv_east := \<lambda>_. 7\<rparr>) = 0
   \<and> comm_size (lone_world\<lparr>malloc_recv_east := \<lambda>_. 7\<rparr>) = 1
   \<and> (0::nat) < 1
   \<and> (1 + 2) * (1 + 2) \<le> length (uniform_grid 1 1 0 10)
   \<and> uniform_grid 1 1 0 10 ! ((0 + 1) * (1 + 2) + 1 + 1) = 10
   \<and> heap (halo_exchange (lone_world\<lparr>malloc_recv_east := \<lambda>_. 7\<rparr>) 1 1
             (jacobi_topology (lone_world\<lparr>malloc_recv_east := \<lambda>_. 7\<rparr>) 1)
             (diagnostics 0 False (jacobi_topology (lone_world\<lparr>malloc_recv_east := \<lambda>_. 7\<rparr>) 1)
                (jacobi_init (lone_world\<lparr>malloc_recv_east := \<lambda>_. 7\<rparr>) (uniform_grid 1 1 0 10)
                   1 1 1)))
          Matrix ! ((0 + 1) * (1 + 2) + 1 + 1) = 7"
proof -
  have g: "uniform_grid 1 1 0 10 ! ((0 + 1) * (1 + 2) + 1 + 1) = 10"
    by (simp add: uniform_grid_nth)
  have l: "length (uniform_grid 1 1 0 10) = (1 + 2) * (1 + 2)"
    by (simp only: uniform_grid_def length_map length_upt diff_zero)
  from halo_exchange_overwrites_border_columns
         [of "lone_world\<lparr>malloc_recv_east := \<lambda>_. 7\<rparr>" 0 1 1 "uniform_grid 1 1 0 10" 1 0 False]
       g l
  show ?thesis
    by (simp add: lone_world_def)
qed


end
